theory Spec2Isabelle
  imports Main "HOL-Library.Stream"
begin

section \<open>Python values used by the referee\<close>

text \<open>
  The referee (\<^verbatim>\<open>src/referee.py\<close>) is a single Python module. Its integers are
  unbounded (\<open>int\<close>), its objects are records, its lists are lists and its
  dictionaries are maps, or association lists where the iteration order matters.
  An exception that leaves a method is a value: \<open>Raises e s\<close> is the exception \<open>e\<close>
  propagating with the game left in state \<open>s\<close>, \<open>Returns s\<close> is a normal return.
\<close>

datatype error = ValueError string | IndexError

datatype 'a outcome = Returns 'a | Raises error 'a

text \<open>
  The module draws from Python's global \<^verbatim>\<open>random\<close> generator. The generator is
  not part of the repository: it is a stream of naturals, and each call takes what it
  needs from the front. \<open>randint a b\<close> yields a value of \<open>[a, b]\<close> whatever the stream
  holds, and every value of the range is the result for some stream; \<open>sample2 n\<close>
  is \<^verbatim>\<open>random.sample(range(n), 2)\<close>: two distinct indices below \<open>n\<close>, and a
  ValueError when the population has fewer than two elements.
\<close>

type_synonym rng = "nat stream"

definition randint :: "int \<Rightarrow> int \<Rightarrow> rng \<Rightarrow> int \<times> rng" where
  "randint a b s = (a + int (shd s mod nat (b - a + 1)), stl s)"

definition sample2 :: "int \<Rightarrow> rng \<Rightarrow> error + ((int \<times> int) \<times> rng)" where
  "sample2 n s =
     (if n < 2 then Inl (ValueError ''Sample larger than population or is negative'')
      else let i = int (shd s mod nat n);
               j = int (shd (stl s) mod nat (n - 1))
           in Inr ((i, if j < i then j else j + 1), stl (stl s)))"

text \<open>
  \<^verbatim>\<open>xs[k]\<close>: the position a Python index denotes, counting from the end when it is
  negative, and \<open>None\<close> where Python raises IndexError.
\<close>

definition index :: "'a list \<Rightarrow> int \<Rightarrow> nat option" where
  "index xs k =
     (let n = int (length xs)
      in if 0 \<le> k \<and> k < n then Some (nat k)
         else if - n \<le> k \<and> k < 0 then Some (nat (n + k))
         else None)"

text \<open>
  \<^verbatim>\<open>max(it, key=f)\<close> on a sequence that starts with \<open>m\<close>: the first element
  whose key is maximal.
\<close>

fun py_max :: "('a \<Rightarrow> int) \<Rightarrow> 'a \<Rightarrow> 'a list \<Rightarrow> 'a" where
  "py_max f m [] = m"
| "py_max f m (x # xs) = py_max f (if f x > f m then x else m) xs"

section \<open>Entities\<close>

text \<open>
  \<^verbatim>\<open>production_disabled\<close> starts as \<^verbatim>\<open>False\<close>, which Python compares and
  subtracts as the integer 0; it is an \<open>int\<close> here.
\<close>

record bomb =
  owner :: int
  source_factory :: int
  destination_factory :: int
  travel_time :: int

record factory =
  owner :: int
  cyborgs :: int
  production :: int
  production_disabled :: int

record troop =
  owner :: int
  num_cyborgs :: int
  source_factory :: int
  destination_factory :: int
  travel_time :: int

record game =
  factories :: "factory list"
  troops :: "troop list"
  bombs :: "bomb list"
  distances :: "int \<times> int \<rightharpoonup> int"

text \<open>\<^verbatim>\<open>Factory.__init__\<close>: a production rate is drawn only for a non-neutral owner.\<close>

definition Factory_init :: "int \<Rightarrow> int \<Rightarrow> rng \<Rightarrow> factory \<times> rng" where
  "Factory_init own cyb s =
     (if own \<noteq> 0
      then (case randint 0 3 s of (p, s') \<Rightarrow>
              (\<lparr>factory.owner = own, cyborgs = cyb, production = p, production_disabled = 0\<rparr>, s'))
      else (\<lparr>factory.owner = own, cyborgs = cyb, production = 0, production_disabled = 0\<rparr>, s))"

section \<open>Initialisation\<close>

text \<open>The loop of \<^verbatim>\<open>initialize_factories\<close>: one neutral factory per iteration.\<close>

fun neutral_factories :: "nat \<Rightarrow> rng \<Rightarrow> factory list \<times> rng" where
  "neutral_factories 0 s = ([], s)"
| "neutral_factories (Suc n) s =
     (case randint 15 30 s of (c, s1) \<Rightarrow>
        case Factory_init 0 c s1 of (f, s2) \<Rightarrow>
          case neutral_factories n s2 of (fs, s3) \<Rightarrow> (f # fs, s3))"

text \<open>
  \<^verbatim>\<open>initialize_factories\<close>. Each of the two assignments evaluates its right-hand
  side (the draw) before it indexes the list, and raises IndexError when the list is
  too short. \<^verbatim>\<open>range\<close> of a negative count is empty.
\<close>

definition initialize_factories :: "int \<Rightarrow> rng \<Rightarrow> error + (factory list \<times> rng)" where
  "initialize_factories factory_count s =
     (case neutral_factories (nat factory_count) s of (fs, s1) \<Rightarrow>
      case randint 0 3 s1 of (p0, s2) \<Rightarrow>
      case index fs 0 of
        None \<Rightarrow> Inl IndexError
      | Some i0 \<Rightarrow>
          let fs1 = fs[i0 := (fs ! i0)\<lparr>factory.owner := 1, production := p0\<rparr>]
          in case randint 0 3 s2 of (p1, s3) \<Rightarrow>
             case index fs1 1 of
               None \<Rightarrow> Inl IndexError
             | Some i1 \<Rightarrow>
                 Inr (fs1[i1 := (fs1 ! i1)\<lparr>factory.owner := 2, production := p1\<rparr>], s3))"

text \<open>
  \<^verbatim>\<open>initialize_distances\<close>: the \<^verbatim>\<open>while\<close> loop, which need not end; not
  returning is the value \<open>None\<close>. \<open>links\<close> receives one ordering of each accepted
  pair, the dictionary both.
\<close>

partial_function (option) links_loop ::
  "int \<Rightarrow> int \<Rightarrow> (int \<times> int) set \<Rightarrow> (int \<times> int \<rightharpoonup> int) \<Rightarrow> rng
     \<Rightarrow> (error + ((int \<times> int \<rightharpoonup> int) \<times> rng)) option" where
  "links_loop factory_count link_count links dist s =
     (if int (card links) < 2 * link_count
      then (case sample2 factory_count s of
              Inl e \<Rightarrow> Some (Inl e)
            | Inr ((f1, f2), s1) \<Rightarrow>
                if (f1, f2) \<notin> links \<and> (f2, f1) \<notin> links
                then (case randint 1 20 s1 of (distance, s2) \<Rightarrow>
                        links_loop factory_count link_count (insert (f1, f2) links)
                          (dist((f1, f2) \<mapsto> distance, (f2, f1) \<mapsto> distance)) s2)
                else links_loop factory_count link_count links dist s1)
      else Some (Inr (dist, s)))"

definition initialize_distances ::
  "int \<Rightarrow> int \<Rightarrow> (int \<times> int \<rightharpoonup> int) \<Rightarrow> rng \<Rightarrow> (error + ((int \<times> int \<rightharpoonup> int) \<times> rng)) option" where
  "initialize_distances factory_count link_count dist s =
     links_loop factory_count link_count {} dist s"

text \<open>\<^verbatim>\<open>Game.__init__\<close>. An exception leaves no game behind.\<close>

definition Game_init :: "int \<Rightarrow> int \<Rightarrow> rng \<Rightarrow> (error + (game \<times> rng)) option" where
  "Game_init factory_count link_count s =
     (case initialize_factories factory_count s of
        Inl e \<Rightarrow> Some (Inl e)
      | Inr (fs, s1) \<Rightarrow>
          (case initialize_distances factory_count link_count Map.empty s1 of
             None \<Rightarrow> None
           | Some (Inl e) \<Rightarrow> Some (Inl e)
           | Some (Inr (d, s2)) \<Rightarrow>
               Some (Inr (\<lparr>factories = fs, troops = [], bombs = [], distances = d\<rparr>, s2))))"

section \<open>Commands\<close>

text \<open>\<^verbatim>\<open>self.distances.get((a, b), 20)\<close>\<close>

definition distance_or_20 :: "game \<Rightarrow> int \<Rightarrow> int \<Rightarrow> int" where
  "distance_or_20 g a b = (case distances g (a, b) of Some d \<Rightarrow> d | None \<Rightarrow> 20)"

definition send_troop :: "int \<Rightarrow> int \<Rightarrow> int \<Rightarrow> int \<Rightarrow> game \<Rightarrow> game outcome" where
  "send_troop own n src dst g =
     (case index (factories g) src of
        None \<Rightarrow> Raises IndexError g
      | Some i \<Rightarrow>
          if factory.owner (factories g ! i) \<noteq> own
          then Raises (ValueError ''You do not own the source factory.'') g
          else Returns
            (g\<lparr>troops := troops g @
                  [\<lparr>troop.owner = own, num_cyborgs = n, source_factory = src,
                    destination_factory = dst, travel_time = distance_or_20 g src dst\<rparr>],
               factories := (factories g)
                  [i := (factories g ! i)\<lparr>cyborgs := cyborgs (factories g ! i) - n\<rparr>]\<rparr>))"

definition send_bomb :: "int \<Rightarrow> int \<Rightarrow> int \<Rightarrow> game \<Rightarrow> game outcome" where
  "send_bomb own src dst g =
     (case index (factories g) src of
        None \<Rightarrow> Raises IndexError g
      | Some i \<Rightarrow>
          if factory.owner (factories g ! i) \<noteq> own
          then Raises (ValueError ''You do not own the source factory.'') g
          else Returns
            (g\<lparr>bombs := bombs g @
                  [\<lparr>bomb.owner = own, source_factory = src,
                    destination_factory = dst, travel_time = distance_or_20 g src dst\<rparr>]\<rparr>))"

section \<open>Bombs\<close>

definition resolve_bomb :: "bomb \<Rightarrow> game \<Rightarrow> game outcome" where
  "resolve_bomb b g =
     (case index (factories g) (bomb.destination_factory b) of
        None \<Rightarrow> Raises IndexError g
      | Some i \<Rightarrow>
          let f = factories g ! i;
              destroyed_cyborgs = max 10 (cyborgs f div 2)
          in Returns (g\<lparr>factories := (factories g)
                 [i := f\<lparr>cyborgs := cyborgs f - destroyed_cyborgs, production_disabled := 5\<rparr>]\<rparr>))"

text \<open>
  The loop of \<^verbatim>\<open>update_bombs\<close> runs over a copy of the list: \<open>todo\<close> is what the
  copy still holds and \<open>kept\<close> the bombs already passed that stay in flight. When
  \<^verbatim>\<open>resolve_bomb\<close> raises, the bomb has been decremented and not yet removed, and
  the rest has not been touched.
\<close>

fun bombs_loop :: "bomb list \<Rightarrow> bomb list \<Rightarrow> game \<Rightarrow> game outcome" where
  "bombs_loop [] kept g = Returns (g\<lparr>bombs := kept\<rparr>)"
| "bombs_loop (b # todo) kept g =
     (let b' = b\<lparr>bomb.travel_time := bomb.travel_time b - 1\<rparr>
      in if bomb.travel_time b' = 0
         then (case resolve_bomb b' g of
                 Raises e g' \<Rightarrow> Raises e (g'\<lparr>bombs := kept @ b' # todo\<rparr>)
               | Returns g' \<Rightarrow> bombs_loop todo kept g')
         else bombs_loop todo (kept @ [b']) g)"

definition update_bombs :: "game \<Rightarrow> game outcome" where
  "update_bombs g = bombs_loop (bombs g) [] g"

section \<open>Battles\<close>

text \<open>
  \<^verbatim>\<open>combatants\<close> is a dictionary whose order matters (the sort below is stable):
  an association list in insertion order. One iteration of the grouping loop adds the
  owner with 0 when it is new, then adds the troop's cyborgs to the owner's entry.
\<close>

definition count_troop :: "(int \<times> int) list \<Rightarrow> troop \<Rightarrow> (int \<times> int) list" where
  "count_troop combatants t =
     (let c1 = (if troop.owner t \<notin> set (map fst combatants)
                then combatants @ [(troop.owner t, 0)] else combatants)
      in map (\<lambda>(k, v). if k = troop.owner t then (k, v + num_cyborgs t) else (k, v)) c1)"

definition group_by_owner :: "troop list \<Rightarrow> (int \<times> int) list" where
  "group_by_owner arriving_troops = foldl count_troop [] arriving_troops"

text \<open>
  The fight between the arriving owners. \<^verbatim>\<open>sorted(..., key=..., reverse=True)\<close>
  is a stable sort by descending key: elements with equal keys keep their order, which
  is what \<open>sort_key\<close> on the negated key does.
\<close>

definition fight :: "(int \<times> int) list \<Rightarrow> (int \<times> int) list" where
  "fight combatants =
     (if length combatants > 1
      then (case sort_key (\<lambda>x. - snd x) combatants of
              [] \<Rightarrow> []
            | (winner, winner_cyborgs) # losers \<Rightarrow>
                [(winner, max 0 (foldl (\<lambda>w (loser, loser_cyborgs). w - loser_cyborgs)
                                   winner_cyborgs losers))])
      else combatants)"

text \<open>
  The battle with the defenders, on the factory itself. \<^verbatim>\<open>max\<close> of an empty
  dictionary raises ValueError (reached only with no arriving troop and a negative
  garrison).
\<close>

definition battle_factory :: "(int \<times> int) list \<Rightarrow> factory \<Rightarrow> rng \<Rightarrow> error + (factory \<times> rng)" where
  "battle_factory combatants f s =
     (case map_of combatants (factory.owner f) of
        Some n \<Rightarrow> Inr (f\<lparr>cyborgs := cyborgs f + n\<rparr>, s)
      | None \<Rightarrow>
          let attacking_force =
                (case map snd combatants of [] \<Rightarrow> 0 | v # vs \<Rightarrow> py_max (\<lambda>x. x) v vs)
          in if attacking_force > cyborgs f
             then (case combatants of
                     [] \<Rightarrow> Inl (ValueError ''max() arg is an empty sequence'')
                   | c # cs \<Rightarrow>
                       let new_owner = fst (py_max snd c cs)
                       in case randint 0 3 s of (p, s') \<Rightarrow>
                            Inr (f\<lparr>factory.owner := new_owner,
                                   cyborgs := attacking_force - cyborgs f,
                                   production := p\<rparr>, s'))
             else Inr (f\<lparr>cyborgs := cyborgs f - attacking_force\<rparr>, s))"

definition resolve_battle :: "int \<Rightarrow> troop list \<Rightarrow> rng \<times> game \<Rightarrow> (rng \<times> game) outcome" where
  "resolve_battle dest arriving_troops sg =
     (case sg of (s, g) \<Rightarrow>
      let combatants = fight (group_by_owner arriving_troops)
      in case index (factories g) dest of
           None \<Rightarrow> Raises IndexError (s, g)
         | Some i \<Rightarrow>
             (case battle_factory combatants (factories g ! i) s of
                Inl e \<Rightarrow> Raises e (s, g)
              | Inr (f', s') \<Rightarrow> Returns (s', g\<lparr>factories := (factories g)[i := f']\<rparr>)))"

text \<open>
  \<^verbatim>\<open>update_troops\<close>, first loop: every troop of the copy is decremented; one that
  reaches 0 joins the battle of its destination (a dictionary in insertion order) and
  leaves the active list.
\<close>

definition join_battle :: "(int \<times> troop list) list \<Rightarrow> troop \<Rightarrow> (int \<times> troop list) list" where
  "join_battle battles t =
     (let dest = troop.destination_factory t;
          b1 = (if dest \<notin> set (map fst battles) then battles @ [(dest, [])] else battles)
      in map (\<lambda>(k, v). if k = dest then (k, v @ [t]) else (k, v)) b1)"

fun troops_loop ::
  "troop list \<Rightarrow> troop list \<Rightarrow> (int \<times> troop list) list
     \<Rightarrow> troop list \<times> (int \<times> troop list) list" where
  "troops_loop [] kept battles = (kept, battles)"
| "troops_loop (t # todo) kept battles =
     (let t' = t\<lparr>troop.travel_time := troop.travel_time t - 1\<rparr>
      in if troop.travel_time t' = 0
         then troops_loop todo kept (join_battle battles t')
         else troops_loop todo (kept @ [t']) battles)"

text \<open>Second loop: the battles in the dictionary's order, up to the first exception.\<close>

fun battles_loop :: "(int \<times> troop list) list \<Rightarrow> rng \<times> game \<Rightarrow> (rng \<times> game) outcome" where
  "battles_loop [] sg = Returns sg"
| "battles_loop ((dest, ts) # rest) sg =
     (case resolve_battle dest ts sg of
        Raises e sg' \<Rightarrow> Raises e sg'
      | Returns sg' \<Rightarrow> battles_loop rest sg')"

definition update_troops :: "rng \<times> game \<Rightarrow> (rng \<times> game) outcome" where
  "update_troops sg =
     (case sg of (s, g) \<Rightarrow>
      case troops_loop (troops g) [] [] of (kept, battles) \<Rightarrow>
        battles_loop battles (s, g\<lparr>troops := kept\<rparr>))"

section \<open>The turn\<close>

text \<open>The body of the production loop of \<^verbatim>\<open>update\<close>, for one factory.\<close>

definition produce :: "factory \<Rightarrow> factory" where
  "produce f =
     (if factory.owner f \<noteq> 0 \<and> production_disabled f = 0
      then f\<lparr>cyborgs := cyborgs f + production f\<rparr>
      else if production_disabled f > 0
      then f\<lparr>production_disabled := production_disabled f - 1\<rparr>
      else f)"

definition update :: "rng \<times> game \<Rightarrow> (rng \<times> game) outcome" where
  "update sg =
     (case update_troops sg of
        Raises e sg1 \<Rightarrow> Raises e sg1
      | Returns (s1, g1) \<Rightarrow>
          (case update_bombs g1 of
             Raises e g2 \<Rightarrow> Raises e (s1, g2)
           | Returns g2 \<Rightarrow> Returns (s1, g2\<lparr>factories := map produce (factories g2)\<rparr>)))"

section \<open>Example states\<close>

text \<open>
  Three factories: one of each player and a neutral one, with a link of length 3
  between factories 0 and 2.
\<close>

definition ex_factories :: "factory list" where
  "ex_factories =
     [\<lparr>factory.owner = 1, cyborgs = 12, production = 2, production_disabled = 0\<rparr>,
      \<lparr>factory.owner = 2, cyborgs = 10, production = 1, production_disabled = 0\<rparr>,
      \<lparr>factory.owner = 0, cyborgs = 8, production = 0, production_disabled = 0\<rparr>]"

definition ex_game :: game where
  "ex_game = \<lparr>factories = ex_factories, troops = [], bombs = [],
              distances = [(0, 2) \<mapsto> 3, (2, 0) \<mapsto> 3]\<rparr>"

definition ex_bomb :: "int \<Rightarrow> bomb" where
  "ex_bomb dst = \<lparr>bomb.owner = 1, source_factory = 0, destination_factory = dst, travel_time = 0\<rparr>"

definition ex_troop :: "int \<Rightarrow> int \<Rightarrow> troop" where
  "ex_troop own n = \<lparr>troop.owner = own, num_cyborgs = n, source_factory = 0,
                     destination_factory = 2, travel_time = 0\<rparr>"

section \<open>Notions of the specification\<close>

text \<open>
  The aggregated strength of an owner in a battle group, in the spec's words: the sum
  of the cyborgs of the owner's arriving troops.
\<close>

definition strength :: "int \<Rightarrow> troop list \<Rightarrow> int" where
  "strength own ts = sum_list (map num_cyborgs (filter (\<lambda>t. troop.owner t = own) ts))"

text \<open>
  One turn of flight, and the two parts the first loop of \<^verbatim>\<open>update_troops\<close> splits
  the active troops into, each in the order of the active list.
\<close>

definition step_troop :: "troop \<Rightarrow> troop" where
  "step_troop t = t\<lparr>troop.travel_time := troop.travel_time t - 1\<rparr>"

definition arrived :: "troop list \<Rightarrow> troop list" where
  "arrived ts = filter (\<lambda>t. troop.travel_time t = 0) (map step_troop ts)"

definition in_flight :: "troop list \<Rightarrow> troop list" where
  "in_flight ts = filter (\<lambda>t. troop.travel_time t \<noteq> 0) (map step_troop ts)"

text \<open>A single neutral factory with 3 cyborgs.\<close>

definition ex_neutral3 :: game where
  "ex_neutral3 =
     \<lparr>factories = [\<lparr>factory.owner = 0, cyborgs = 3, production = 0, production_disabled = 0\<rparr>],
      troops = [], bombs = [], distances = Map.empty\<rparr>"

text \<open>Troops one turn away from factory 2.\<close>

definition ex_arriving :: "int \<Rightarrow> int \<Rightarrow> troop" where
  "ex_arriving own n = \<lparr>troop.owner = own, num_cyborgs = n, source_factory = 0,
                        destination_factory = 2, travel_time = 1\<rparr>"

text \<open>The state an outcome leaves, returned or raised.\<close>

fun state_of :: "'a outcome \<Rightarrow> 'a" where
  "state_of (Returns x) = x"
| "state_of (Raises e x) = x"

text \<open>
  No troop and no bomb in flight is bound for factory \<open>i\<close>; and \<open>k\<close> calls of
  \<^verbatim>\<open>update\<close> in a row, up to the first exception.
\<close>

definition untargeted :: "nat \<Rightarrow> game \<Rightarrow> bool" where
  "untargeted i g \<longleftrightarrow>
     (\<forall>t \<in> set (troops g). index (factories g) (troop.destination_factory t) \<noteq> Some i)
     \<and> (\<forall>b \<in> set (bombs g). index (factories g) (bomb.destination_factory b) \<noteq> Some i)"

fun updates :: "nat \<Rightarrow> rng \<times> game \<Rightarrow> (rng \<times> game) outcome" where
  "updates 0 sg = Returns sg"
| "updates (Suc k) sg =
     (case update sg of Raises e sg' \<Rightarrow> Raises e sg' | Returns sg' \<Rightarrow> updates k sg')"

text \<open>
  The example game after a bomb has resolved at factory 0, and with 12 cyborgs of
  player 1 one turn away from the neutral factory 2.
\<close>

definition ex_bombed :: game where
  "ex_bombed = ex_game\<lparr>factories :=
     [\<lparr>factory.owner = 1, cyborgs = 2, production = 2, production_disabled = 5\<rparr>,
      \<lparr>factory.owner = 2, cyborgs = 10, production = 1, production_disabled = 0\<rparr>,
      \<lparr>factory.owner = 0, cyborgs = 8, production = 0, production_disabled = 0\<rparr>]\<rparr>"

definition ex_attack :: game where
  "ex_attack = ex_game\<lparr>troops := [ex_arriving 1 12]\<rparr>"

text \<open>
  The invariant the spec states for neutral factories (production 0 and never
  disabled), and its first half alone.
\<close>

definition neutral_idle :: "game \<Rightarrow> bool" where
  "neutral_idle g \<longleftrightarrow>
     (\<forall>f \<in> set (factories g).
        factory.owner f = 0 \<longrightarrow> production f = 0 \<and> production_disabled f = 0)"

definition neutral_unproductive :: "game \<Rightarrow> bool" where
  "neutral_unproductive g \<longleftrightarrow>
     (\<forall>f \<in> set (factories g). factory.owner f = 0 \<longrightarrow> production f = 0)"

text \<open>
  The states a caller can reach: a game as \<^verbatim>\<open>Game.__init__\<close> returns it, then any
  sequence of commands requested by owners of \<open>callers\<close> and of turns, each taken with
  the state it leaves, whether it returns or raises.
\<close>

inductive reachable :: "int set \<Rightarrow> game \<Rightarrow> bool" for callers :: "int set" where
  init: "Game_init factory_count link_count s = Some (Inr (g, s')) \<Longrightarrow> reachable callers g"
| troop: "reachable callers g \<Longrightarrow> own \<in> callers
            \<Longrightarrow> state_of (send_troop own n src dst g) = g' \<Longrightarrow> reachable callers g'"
| bomb: "reachable callers g \<Longrightarrow> own \<in> callers
            \<Longrightarrow> state_of (send_bomb own src dst g) = g' \<Longrightarrow> reachable callers g'"
| turn: "reachable callers g
            \<Longrightarrow> state_of (update (s, g)) = (s', g') \<Longrightarrow> reachable callers g'"

text \<open>No troop in flight belongs to the neutral owner.\<close>

definition no_neutral_troop :: "game \<Rightarrow> bool" where
  "no_neutral_troop g \<longleftrightarrow> (\<forall>t \<in> set (troops g). troop.owner t \<noteq> 0)"

text \<open>
  What the loop of \<^verbatim>\<open>initialize_distances\<close> maintains: the dictionary holds both
  orderings of the pairs of \<open>links\<close> and nothing else, \<open>links\<close> holds no pair in both
  orderings, and every stored distance lies in \<open>[1, 20]\<close> and is stored for the
  reversed pair too.
\<close>

definition links_inv :: "(int \<times> int) set \<Rightarrow> (int \<times> int \<rightharpoonup> int) \<Rightarrow> bool" where
  "links_inv links dist \<longleftrightarrow>
     finite links \<and> dom dist = links \<union> links\<inverse>
     \<and> (\<forall>(a, b) \<in> links. (b, a) \<notin> links)
     \<and> (\<forall>a b v. dist (a, b) = Some v \<longrightarrow> 1 \<le> v \<and> v \<le> 20 \<and> dist (b, a) = Some v)"

text \<open>The unordered pairs of factories that have a stored distance.\<close>

definition link_pairs :: "(int \<times> int \<rightharpoonup> int) \<Rightarrow> int set set" where
  "link_pairs d = (\<lambda>(a, b). {a, b}) ` dom d"

text \<open>
  A run of \<^verbatim>\<open>Game(3, 1)\<close>: the generator gives 15 cyborgs to each factory, the
  production rates 1 and 2, and the samples (0, 2) and (1, 2) with distance 1 each.
  From it, the state after player 1 has bombed the neutral factory 2, and the state
  after 100 cyborgs sent in the name of the neutral owner from factory 2 have taken
  factory 0.
\<close>

definition ex_rng :: rng where
  "ex_rng = [0, 0, 0, 1, 2, 0, 1, 0, 1, 1, 0] @- sconst 0"

definition ex_init :: game where
  "ex_init =
     \<lparr>factories =
        [\<lparr>factory.owner = 1, cyborgs = 15, production = 1, production_disabled = 0\<rparr>,
         \<lparr>factory.owner = 2, cyborgs = 15, production = 2, production_disabled = 0\<rparr>,
         \<lparr>factory.owner = 0, cyborgs = 15, production = 0, production_disabled = 0\<rparr>],
      troops = [], bombs = [],
      distances = [(0, 2) \<mapsto> 1, (2, 0) \<mapsto> 1, (1, 2) \<mapsto> 1, (2, 1) \<mapsto> 1]\<rparr>"

definition ex_neutral_bombed :: game where
  "ex_neutral_bombed = ex_init\<lparr>factories :=
     [\<lparr>factory.owner = 1, cyborgs = 16, production = 1, production_disabled = 0\<rparr>,
      \<lparr>factory.owner = 2, cyborgs = 17, production = 2, production_disabled = 0\<rparr>,
      \<lparr>factory.owner = 0, cyborgs = 5, production = 0, production_disabled = 4\<rparr>]\<rparr>"

definition ex_neutral_conquest :: game where
  "ex_neutral_conquest = ex_init\<lparr>factories :=
     [\<lparr>factory.owner = 0, cyborgs = 85, production = 3, production_disabled = 0\<rparr>,
      \<lparr>factory.owner = 2, cyborgs = 17, production = 2, production_disabled = 0\<rparr>,
      \<lparr>factory.owner = 0, cyborgs = - 85, production = 0, production_disabled = 0\<rparr>]\<rparr>"

section \<open>Indexing\<close>

lemma index_bound: "index xs k = Some i \<Longrightarrow> i < length xs"
  by (auto simp: index_def Let_def split: if_splits)

lemma index_ex_factories:
  "index ex_factories 0 = Some 0" "index ex_factories 1 = Some 1"
  "index ex_factories 2 = Some 2" "index ex_factories (-1) = Some 2"
  by (simp_all add: index_def ex_factories_def)

section \<open>The bomb resolver\<close>

text \<open>
  C5. A bomb that resolves at a factory with \<open>c\<close> cyborgs takes exactly
  \<open>max 10 (c div 2)\<close> of them (\<open>div\<close> rounds down, as \<^verbatim>\<open>//\<close> does) with no floor at
  0, sets the production-disabled counter to 5 whatever it was, and changes nothing
  else: the owner and the production rate of the factory, the other factories and the
  rest of the game are as before.
\<close>

theorem resolve_bomb_effect:
  assumes "index (factories g) (bomb.destination_factory b) = Some i"
  shows "resolve_bomb b g =
           Returns (g\<lparr>factories := (factories g)
              [i := (factories g ! i)
                 \<lparr>cyborgs := cyborgs (factories g ! i) - max 10 (cyborgs (factories g ! i) div 2),
                  production_disabled := 5\<rparr>]\<rparr>)
         \<and> factory.owner
              ((factories g ! i)
                 \<lparr>cyborgs := cyborgs (factories g ! i) - max 10 (cyborgs (factories g ! i) div 2),
                  production_disabled := 5\<rparr>) = factory.owner (factories g ! i)"
  using assms by (simp add: resolve_bomb_def Let_def)

text \<open>
  The spec's example (12 cyborgs: 10 destroyed, 2 left) and a garrison of 8 that the
  bomb takes to -2.
\<close>

theorem resolve_bomb_effect_witness:
  "index (factories ex_game) (bomb.destination_factory (ex_bomb 0)) = Some 0
   \<and> resolve_bomb (ex_bomb 0) ex_game =
       Returns (ex_game\<lparr>factories :=
          [\<lparr>factory.owner = 1, cyborgs = 2, production = 2, production_disabled = 5\<rparr>,
           \<lparr>factory.owner = 2, cyborgs = 10, production = 1, production_disabled = 0\<rparr>,
           \<lparr>factory.owner = 0, cyborgs = 8, production = 0, production_disabled = 0\<rparr>]\<rparr>)
   \<and> index (factories ex_game) (bomb.destination_factory (ex_bomb 2)) = Some 2
   \<and> resolve_bomb (ex_bomb 2) ex_game =
       Returns (ex_game\<lparr>factories :=
          [\<lparr>factory.owner = 1, cyborgs = 12, production = 2, production_disabled = 0\<rparr>,
           \<lparr>factory.owner = 2, cyborgs = 10, production = 1, production_disabled = 0\<rparr>,
           \<lparr>factory.owner = 0, cyborgs = - 2, production = 0, production_disabled = 5\<rparr>]\<rparr>)"
proof -
  have h0: "index (factories ex_game) (bomb.destination_factory (ex_bomb 0)) = Some 0"
    by (simp add: ex_game_def ex_bomb_def index_ex_factories)
  have h2: "index (factories ex_game) (bomb.destination_factory (ex_bomb 2)) = Some 2"
    by (simp add: ex_game_def ex_bomb_def index_ex_factories)
  show ?thesis
    using h0 h2 resolve_bomb_effect [OF h0] resolve_bomb_effect [OF h2]
    by (simp add: ex_game_def ex_factories_def)
qed

section \<open>The command interface\<close>

text \<open>
  C6. When the requesting owner is not the owner of the source factory, \<^verbatim>\<open>send_troop\<close>
  and \<^verbatim>\<open>send_bomb\<close> raise the ValueError of the ownership check (the spec's
  OwnershipViolation) and leave the whole game as it was: factories, troops, bombs and
  distances.
\<close>

theorem send_not_owner:
  assumes "index (factories g) src = Some i"
    and "factory.owner (factories g ! i) \<noteq> own"
  shows "send_troop own n src dst g = Raises (ValueError ''You do not own the source factory.'') g
         \<and> send_bomb own src dst g = Raises (ValueError ''You do not own the source factory.'') g"
  using assms by (simp add: send_troop_def send_bomb_def)

theorem send_not_owner_witness:
  "index (factories ex_game) 1 = Some 1
   \<and> factory.owner (factories ex_game ! 1) \<noteq> 1
   \<and> send_troop 1 5 1 2 ex_game = Raises (ValueError ''You do not own the source factory.'') ex_game
   \<and> send_bomb 1 1 2 ex_game = Raises (ValueError ''You do not own the source factory.'') ex_game"
proof -
  have h: "index (factories ex_game) 1 = Some 1"
    by (simp add: ex_game_def index_ex_factories)
  have o: "factory.owner (factories ex_game ! 1) \<noteq> 1"
    by (simp add: ex_game_def ex_factories_def)
  show ?thesis
    using h o send_not_owner [OF h o, of 5 2] by simp
qed

text \<open>
  C8. When the requesting owner owns the source factory, \<^verbatim>\<open>send_troop\<close> returns
  normally; the new state is the old one with exactly one troop appended, whose travel
  time is the stored distance from source to destination, or 20 when none is stored,
  and with the source factory's cyborgs decreased by the count, without any floor.
  Nothing else changes.
\<close>

theorem send_troop_owner:
  assumes "index (factories g) src = Some i"
    and "factory.owner (factories g ! i) = own"
  shows "send_troop own n src dst g =
           Returns (g\<lparr>troops := troops g @
                        [\<lparr>troop.owner = own, num_cyborgs = n, source_factory = src,
                          destination_factory = dst,
                          travel_time = (case distances g (src, dst) of Some d \<Rightarrow> d | None \<Rightarrow> 20)\<rparr>],
                      factories := (factories g)
                        [i := (factories g ! i)\<lparr>cyborgs := cyborgs (factories g ! i) - n\<rparr>]\<rparr>)"
  using assms by (simp add: send_troop_def distance_or_20_def)

text \<open>
  A troop over the stored link (travel time 3), and one of 50 cyborgs from a garrison
  of 12 over a pair with no link (travel time 20, garrison -38).
\<close>

theorem send_troop_owner_witness:
  "index (factories ex_game) 0 = Some 0
   \<and> factory.owner (factories ex_game ! 0) = 1
   \<and> send_troop 1 5 0 2 ex_game =
       Returns (ex_game\<lparr>troops :=
          [\<lparr>troop.owner = 1, num_cyborgs = 5, source_factory = 0,
            destination_factory = 2, travel_time = 3\<rparr>],
        factories :=
          [\<lparr>factory.owner = 1, cyborgs = 7, production = 2, production_disabled = 0\<rparr>,
           \<lparr>factory.owner = 2, cyborgs = 10, production = 1, production_disabled = 0\<rparr>,
           \<lparr>factory.owner = 0, cyborgs = 8, production = 0, production_disabled = 0\<rparr>]\<rparr>)
   \<and> send_troop 1 50 0 1 ex_game =
       Returns (ex_game\<lparr>troops :=
          [\<lparr>troop.owner = 1, num_cyborgs = 50, source_factory = 0,
            destination_factory = 1, travel_time = 20\<rparr>],
        factories :=
          [\<lparr>factory.owner = 1, cyborgs = - 38, production = 2, production_disabled = 0\<rparr>,
           \<lparr>factory.owner = 2, cyborgs = 10, production = 1, production_disabled = 0\<rparr>,
           \<lparr>factory.owner = 0, cyborgs = 8, production = 0, production_disabled = 0\<rparr>]\<rparr>)"
proof -
  have h: "index (factories ex_game) 0 = Some 0"
    by (simp add: ex_game_def index_ex_factories)
  have o: "factory.owner (factories ex_game ! 0) = 1"
    by (simp add: ex_game_def ex_factories_def)
  show ?thesis
    using h o send_troop_owner [OF h o, of 5 2] send_troop_owner [OF h o, of 50 1]
    by (simp add: ex_game_def ex_factories_def)
qed

section \<open>The battle with the defenders\<close>

lemma randint_range:
  assumes "a \<le> b"
  shows "a \<le> fst (randint a b s) \<and> fst (randint a b s) \<le> b"
proof -
  have "0 < nat (b - a + 1)" using assms by simp
  then have "shd s mod nat (b - a + 1) < nat (b - a + 1)" by simp
  then have "int (shd s mod nat (b - a + 1)) < b - a + 1" by linarith
  then show ?thesis by (simp add: randint_def)
qed

lemma battle_factory_single:
  "battle_factory [(w, n)] f s =
     Inr (if factory.owner f = w then (f\<lparr>cyborgs := cyborgs f + n\<rparr>, s)
          else if n > cyborgs f
          then (f\<lparr>factory.owner := w, cyborgs := n - cyborgs f,
                  production := fst (randint 0 3 s)\<rparr>, snd (randint 0 3 s))
          else (f\<lparr>cyborgs := cyborgs f - n\<rparr>, s))"
  by (simp add: battle_factory_def Let_def split: prod.splits)

text \<open>
  C4. A battle whose arriving troops leave the single net combatant \<open>(w, n)\<close>, at a
  factory \<open>f\<close> with \<open>c\<close> cyborgs, returns normally and changes that factory only:
  a combatant of the factory's owner reinforces it (\<open>c + n\<close>, nothing else changes);
  otherwise, when \<open>n > c\<close>, the factory goes to \<open>w\<close> with \<open>n - c\<close> cyborgs and
  a production rate drawn from \<open>[0, 3]\<close>, its production-disabled counter as before;
  otherwise the attack is repelled (\<open>c - n\<close>, owner unchanged).
\<close>

theorem battle_single_combatant:
  assumes "fight (group_by_owner ts) = [(w, n)]"
    and "index (factories g) dest = Some i"
    and "f = factories g ! i"
    and "c = cyborgs f"
    and "p = fst (randint 0 3 s)"
  shows "0 \<le> p \<and> p \<le> 3
         \<and> resolve_battle dest ts (s, g) =
             Returns (if factory.owner f \<noteq> w \<and> n > c then snd (randint 0 3 s) else s,
                      g\<lparr>factories := (factories g)
                         [i := (if factory.owner f = w then f\<lparr>cyborgs := c + n\<rparr>
                                else if n > c
                                then f\<lparr>factory.owner := w, cyborgs := n - c, production := p\<rparr>
                                else f\<lparr>cyborgs := c - n\<rparr>)]\<rparr>)
         \<and> production_disabled
               (f\<lparr>factory.owner := w, cyborgs := n - c, production := p\<rparr>)
             = production_disabled f"
proof -
  have "0 \<le> p \<and> p \<le> 3"
    using randint_range [of 0 3 s] assms(5) by simp
  moreover have "resolve_battle dest ts (s, g) =
             Returns (if factory.owner f \<noteq> w \<and> n > c then snd (randint 0 3 s) else s,
                      g\<lparr>factories := (factories g)
                         [i := (if factory.owner f = w then f\<lparr>cyborgs := c + n\<rparr>
                                else if n > c
                                then f\<lparr>factory.owner := w, cyborgs := n - c, production := p\<rparr>
                                else f\<lparr>cyborgs := c - n\<rparr>)]\<rparr>)"
    using assms by (simp add: resolve_battle_def battle_factory_single)
  ultimately show ?thesis by simp
qed

lemma group_single: "group_by_owner [t] = [(troop.owner t, num_cyborgs t)]"
  by (simp add: group_by_owner_def count_troop_def)

text \<open>
  The spec's three examples: 4 cyborgs reinforce the 12 of their own factory; 12
  cyborgs conquer a neutral factory of 8 and leave 4, with the production rate the
  generator gives (here 3); 5 cyborgs are repelled by the 10 of the other player.
\<close>

theorem battle_single_combatant_witness:
  "resolve_battle 0 [ex_troop 1 4] (sconst 3, ex_game) =
     Returns (sconst 3, ex_game\<lparr>factories :=
       [\<lparr>factory.owner = 1, cyborgs = 16, production = 2, production_disabled = 0\<rparr>,
        \<lparr>factory.owner = 2, cyborgs = 10, production = 1, production_disabled = 0\<rparr>,
        \<lparr>factory.owner = 0, cyborgs = 8, production = 0, production_disabled = 0\<rparr>]\<rparr>)
   \<and> resolve_battle 2 [ex_troop 1 12] (sconst 3, ex_game) =
     Returns (sconst 3, ex_game\<lparr>factories :=
       [\<lparr>factory.owner = 1, cyborgs = 12, production = 2, production_disabled = 0\<rparr>,
        \<lparr>factory.owner = 2, cyborgs = 10, production = 1, production_disabled = 0\<rparr>,
        \<lparr>factory.owner = 1, cyborgs = 4, production = 3, production_disabled = 0\<rparr>]\<rparr>)
   \<and> resolve_battle 1 [ex_troop 1 5] (sconst 3, ex_game) =
     Returns (sconst 3, ex_game\<lparr>factories :=
       [\<lparr>factory.owner = 1, cyborgs = 12, production = 2, production_disabled = 0\<rparr>,
        \<lparr>factory.owner = 2, cyborgs = 5, production = 1, production_disabled = 0\<rparr>,
        \<lparr>factory.owner = 0, cyborgs = 8, production = 0, production_disabled = 0\<rparr>]\<rparr>)"
proof -
  have f: "\<And>n. fight (group_by_owner [ex_troop 1 n]) = [(1, n)]"
    by (simp add: group_single fight_def ex_troop_def)
  have i: "index (factories ex_game) 0 = Some 0" "index (factories ex_game) 1 = Some 1"
    "index (factories ex_game) 2 = Some 2"
    by (simp_all add: ex_game_def index_ex_factories)
  show ?thesis
    using battle_single_combatant [OF f i(1) refl refl refl, of "sconst 3"]
      battle_single_combatant [OF f i(2) refl refl refl, of "sconst 3"]
      battle_single_combatant [OF f i(3) refl refl refl, of "sconst 3"]
    by (simp add: ex_game_def ex_factories_def randint_def)
qed

section \<open>Grouping the arriving troops\<close>

lemma group_snoc: "group_by_owner (ts @ [t]) = count_troop (group_by_owner ts) t"
  by (simp add: group_by_owner_def)

lemma keys_count_troop:
  "map fst (count_troop cs t) =
     (if troop.owner t \<in> set (map fst cs) then map fst cs else map fst cs @ [troop.owner t])"
  by (auto simp: count_troop_def Let_def split: prod.splits)

lemma keys_group: "set (map fst (group_by_owner ts)) = troop.owner ` set ts"
  by (induction ts rule: rev_induct) (auto simp: group_snoc keys_count_troop group_by_owner_def)

lemma distinct_group: "distinct (map fst (group_by_owner ts))"
  by (induction ts rule: rev_induct) (auto simp: group_snoc keys_count_troop group_by_owner_def)

lemma map_of_bump:
  "map_of (map (\<lambda>(k, v). if k = a then (k, v + n) else (k, v)) cs) k =
     (if k = a then map_option (\<lambda>v. v + n) (map_of cs k) else map_of cs k)"
  by (induction cs) auto

lemma map_of_count_troop:
  "map_of (count_troop cs t) k =
     (if k = troop.owner t
      then Some ((case map_of cs k of None \<Rightarrow> 0 | Some v \<Rightarrow> v) + num_cyborgs t)
      else map_of cs k)"
proof (cases "troop.owner t \<in> set (map fst cs)")
  case True
  then obtain v where "map_of cs (troop.owner t) = Some v"
    by (metis map_of_eq_None_iff not_None_eq set_map)
  with True show ?thesis
    by (simp add: count_troop_def map_of_bump)
next
  case False
  then have "map_of cs (troop.owner t) = None"
    by (simp add: map_of_eq_None_iff)
  with False show ?thesis
    by (simp add: count_troop_def map_of_bump map_add_def split: option.splits)
qed

lemma strength_absent: "own \<notin> troop.owner ` set ts \<Longrightarrow> strength own ts = 0"
  by (induction ts) (auto simp: strength_def)

lemma strength_snoc:
  "strength own (ts @ [t]) = strength own ts + (if troop.owner t = own then num_cyborgs t else 0)"
  by (simp add: strength_def)

lemma map_of_group:
  "map_of (group_by_owner ts) k =
     (if k \<in> troop.owner ` set ts then Some (strength k ts) else None)"
proof (induction ts rule: rev_induct)
  case Nil
  then show ?case by (simp add: group_by_owner_def)
next
  case (snoc t ts)
  then show ?case
    by (auto simp: group_snoc map_of_count_troop strength_snoc strength_absent)
qed

lemma group_value:
  assumes "(k, v) \<in> set (group_by_owner ts)"
  shows "k \<in> troop.owner ` set ts \<and> v = strength k ts"
proof -
  have "map_of (group_by_owner ts) k = Some v"
    using assms distinct_group by simp
  then show ?thesis by (simp add: map_of_group split: if_splits)
qed

lemma length_group: "length (group_by_owner ts) = card (troop.owner ` set ts)"
proof -
  have "card (troop.owner ` set ts) = card (set (map fst (group_by_owner ts)))"
    by (simp only: keys_group)
  also have "\<dots> = length (map fst (group_by_owner ts))"
    using distinct_group by (rule distinct_card)
  finally show ?thesis by simp
qed

lemma foldl_losers:
  "foldl (\<lambda>w (loser, loser_cyborgs). w - loser_cyborgs) (a::int) xs = a - sum_list (map snd xs)"
  by (induction xs arbitrary: a) (auto split: prod.splits simp: algebra_simps)

text \<open>
  The dictionary lists the owners in the order of their first troop: an owner at some
  position of the keys has a troop before which only owners of earlier keys occur.
\<close>

lemma keys_first_occurrence:
  "map fst (group_by_owner ts) = ks1 @ w # ks2 \<Longrightarrow>
     \<exists>pre t post. ts = pre @ t # post \<and> troop.owner t = w \<and> troop.owner ` set pre \<subseteq> set ks1"
proof (induction ts arbitrary: ks2 rule: rev_induct)
  case Nil
  then show ?case by (simp add: group_by_owner_def)
next
  case (snoc x ts)
  show ?case
  proof (cases "troop.owner x \<in> set (map fst (group_by_owner ts))")
    case True
    then have "map fst (group_by_owner ts) = ks1 @ w # ks2"
      using snoc.prems by (simp add: group_snoc keys_count_troop)
    from snoc.IH [OF this] obtain pre t post where
      "ts = pre @ t # post" "troop.owner t = w" "troop.owner ` set pre \<subseteq> set ks1" by blast
    then have "ts @ [x] = pre @ t # (post @ [x])" by simp
    then show ?thesis using \<open>troop.owner t = w\<close> \<open>troop.owner ` set pre \<subseteq> set ks1\<close> by blast
  next
    case False
    then have eq: "map fst (group_by_owner ts) @ [troop.owner x] = ks1 @ w # ks2"
      using snoc.prems by (simp add: group_snoc keys_count_troop)
    show ?thesis
    proof (cases ks2 rule: rev_cases)
      case Nil
      then have "map fst (group_by_owner ts) = ks1" "troop.owner x = w"
        using eq by auto
      then have "troop.owner ` set ts \<subseteq> set ks1"
        using keys_group [of ts] by simp
      then show ?thesis using \<open>troop.owner x = w\<close> by blast
    next
      case (snoc ks2' k)
      then have "map fst (group_by_owner ts) = ks1 @ w # ks2'"
        using eq by auto
      from snoc.IH [OF this] obtain pre t post where
        "ts = pre @ t # post" "troop.owner t = w" "troop.owner ` set pre \<subseteq> set ks1" by blast
      then have "ts @ [x] = pre @ t # (post @ [x])" by simp
      then show ?thesis using \<open>troop.owner t = w\<close> \<open>troop.owner ` set pre \<subseteq> set ks1\<close> by blast
    qed
  qed
qed

section \<open>The fight between the arriving owners\<close>

lemma sum_list_insort:
  "sum_list (map g (insort_key f x xs)) = (g x :: int) + sum_list (map g xs)"
  by (induction xs) auto

lemma sum_list_sort: "sum_list (map g (sort_key f xs)) = (sum_list (map g xs) :: int)"
  by (induction xs) (simp_all add: sum_list_insort)

lemma sorted_desc_head:
  fixes cs :: "(int \<times> int) list"
  assumes "sort_key (\<lambda>x. - snd x) cs = (w, wc) # losers"
  shows "(w, wc) \<in> set cs"
    and "\<forall>x \<in> set cs. snd x \<le> wc"
    and "sum_list (map snd losers) = sum_list (map snd cs) - wc"
    and "\<exists>us vs. cs = us @ (w, wc) # vs \<and> (\<forall>u \<in> set us. snd u < wc)"
proof -
  let ?f = "\<lambda>x :: int \<times> int. - snd x"
  have set_eq: "set cs = insert (w, wc) (set losers)"
    using set_sort [of ?f cs] assms by simp
  then show in_cs: "(w, wc) \<in> set cs" by simp
  have "sorted (map ?f ((w, wc) # losers))"
    using sorted_sort_key [of ?f cs] assms by simp
  then have "\<forall>x \<in> set losers. snd x \<le> wc" by auto
  then show le: "\<forall>x \<in> set cs. snd x \<le> wc" using set_eq by auto
  have "sum_list (map snd ((w, wc) # losers)) = sum_list (map snd cs)"
    using sum_list_sort [of snd ?f cs] assms by simp
  then show "sum_list (map snd losers) = sum_list (map snd cs) - wc" by simp
  have "filter (\<lambda>y. ?f y = ?f (w, wc)) cs = filter (\<lambda>y. ?f y = ?f (w, wc)) ((w, wc) # losers)"
    using sort_key_stable [of ?f "?f (w, wc)" cs] assms by simp
  then have "filter (\<lambda>y. snd y = wc) cs = (w, wc) # filter (\<lambda>y. snd y = wc) losers"
    by simp
  then obtain us vs where "cs = us @ (w, wc) # vs" "\<forall>u \<in> set us. snd u \<noteq> wc"
    unfolding filter_eq_Cons_iff by blast
  moreover have "\<forall>u \<in> set us. snd u \<le> wc" using le \<open>cs = us @ (w, wc) # vs\<close> by auto
  ultimately have "cs = us @ (w, wc) # vs \<and> (\<forall>u \<in> set us. snd u < wc)" by fastforce
  then show "\<exists>us vs. cs = us @ (w, wc) # vs \<and> (\<forall>u \<in> set us. snd u < wc)" by blast
qed

lemma group_total:
  "sum_list (map snd (group_by_owner ts)) = (\<Sum>own \<in> troop.owner ` set ts. strength own ts)"
proof -
  have "map snd (group_by_owner ts) = map (\<lambda>own. strength own ts) (map fst (group_by_owner ts))"
    using group_value [of _ _ ts] by (auto simp: map_eq_conv)
  then have "sum_list (map snd (group_by_owner ts))
      = sum_list (map (\<lambda>own. strength own ts) (map fst (group_by_owner ts)))" by (simp only:)
  also have "\<dots> = (\<Sum>own \<in> set (map fst (group_by_owner ts)). strength own ts)"
    using distinct_group by (rule sum_list_distinct_conv_sum_set)
  finally show ?thesis by (simp only: keys_group)
qed

lemma fight_multi:
  assumes "1 < card (troop.owner ` set ts)"
  shows "\<exists>w us vs. group_by_owner ts = us @ (w, strength w ts) # vs
           \<and> (\<forall>u \<in> set us. snd u < strength w ts)
           \<and> w \<in> troop.owner ` set ts
           \<and> (\<forall>own \<in> troop.owner ` set ts. strength own ts \<le> strength w ts)
           \<and> fight (group_by_owner ts) =
               [(w, max 0 (strength w ts - (\<Sum>own \<in> troop.owner ` set ts - {w}. strength own ts)))]"
proof -
  let ?cs = "group_by_owner ts"
  have len: "1 < length ?cs" using assms by (simp add: length_group)
  then have "length (sort_key (\<lambda>x. - snd x) ?cs) \<noteq> 0" by (simp only: length_sort)
  then obtain w wc losers where s: "sort_key (\<lambda>x. - snd x) ?cs = (w, wc) # losers"
    by (cases "sort_key (\<lambda>x. - snd x) ?cs") auto
  note h = sorted_desc_head [OF s]
  have w: "w \<in> troop.owner ` set ts" "wc = strength w ts"
    using group_value [OF h(1)] by simp_all
  have le: "\<forall>own \<in> troop.owner ` set ts. strength own ts \<le> strength w ts"
  proof
    fix own assume "own \<in> troop.owner ` set ts"
    then have "map_of ?cs own = Some (strength own ts)" by (simp add: map_of_group)
    then have "(own, strength own ts) \<in> set ?cs" by (rule map_of_SomeD)
    then show "strength own ts \<le> strength w ts" using h(2) w(2) by auto
  qed
  have "(\<Sum>own \<in> troop.owner ` set ts - {w}. strength own ts)
          = (\<Sum>own \<in> troop.owner ` set ts. strength own ts) - strength w ts"
    using w(1) by (simp add: sum_diff1)
  then have others: "sum_list (map snd losers)
          = (\<Sum>own \<in> troop.owner ` set ts - {w}. strength own ts)"
    using h(3) w(2) by (simp add: group_total)
  have "fight ?cs = [(w, max 0 (wc - sum_list (map snd losers)))]"
    using len s by (simp add: fight_def foldl_losers)
  then have f: "fight ?cs =
      [(w, max 0 (strength w ts - (\<Sum>own \<in> troop.owner ` set ts - {w}. strength own ts)))]"
    using others w(2) by simp
  from h(4) obtain us vs where "?cs = us @ (w, strength w ts) # vs"
    "\<forall>u \<in> set us. snd u < strength w ts" using w(2) by blast
  then show ?thesis using w(1) le f by blast
qed

lemma first_strongest_wins:
  assumes "1 < card (troop.owner ` set ts)"
  shows "\<exists>pre t post n. ts = pre @ t # post
           \<and> fight (group_by_owner ts) = [(troop.owner t, n)]
           \<and> (\<forall>u \<in> set ts. strength (troop.owner u) ts \<le> strength (troop.owner t) ts)
           \<and> (\<forall>u \<in> set pre. strength (troop.owner u) ts < strength (troop.owner t) ts)"
proof -
  from fight_multi [OF assms] obtain w us vs n where
    g: "group_by_owner ts = us @ (w, strength w ts) # vs"
    and us: "\<forall>u \<in> set us. snd u < strength w ts"
    and le: "\<forall>own \<in> troop.owner ` set ts. strength own ts \<le> strength w ts"
    and f: "fight (group_by_owner ts) = [(w, n)]" by blast
  have "map fst (group_by_owner ts) = map fst us @ w # map fst vs"
    using g by simp
  from keys_first_occurrence [OF this] obtain pre t post where
    ts: "ts = pre @ t # post" and t: "troop.owner t = w"
    and pre: "troop.owner ` set pre \<subseteq> set (map fst us)" by blast
  have "\<forall>u \<in> set pre. strength (troop.owner u) ts < strength w ts"
  proof
    fix u assume "u \<in> set pre"
    then obtain v where v: "(troop.owner u, v) \<in> set us" using pre by auto
    then have "(troop.owner u, v) \<in> set (group_by_owner ts)" using g by simp
    then have "v = strength (troop.owner u) ts" using group_value by blast
    then show "strength (troop.owner u) ts < strength w ts" using us v by auto
  qed
  then have "ts = pre @ t # post
           \<and> fight (group_by_owner ts) = [(troop.owner t, n)]
           \<and> (\<forall>u \<in> set ts. strength (troop.owner u) ts \<le> strength (troop.owner t) ts)
           \<and> (\<forall>u \<in> set pre. strength (troop.owner u) ts < strength (troop.owner t) ts)"
    using ts t le f by simp
  then show ?thesis by (intro exI)
qed

text \<open>
  C3. With more than one distinct owner among the arriving troops, the resolver holds
  for each owner the sum of its troops' cyborgs, and the fight leaves exactly one
  combatant: an owner \<open>w\<close> of maximal aggregated strength, with its strength minus the
  strengths of all the other owners (the sequential subtraction along the descending
  order), floored at 0. For the owners 1 with 7 and 2 with 10 cyborgs at a neutral
  factory of 3 cyborgs, the survivor is owner 2 with 3, and the battle leaves the
  factory neutral with 0 cyborgs.
\<close>

theorem fight_several_owners:
  assumes "1 < card (troop.owner ` set ts)"
  shows "(\<forall>own. map_of (group_by_owner ts) own =
             (if own \<in> troop.owner ` set ts then Some (strength own ts) else None))
         \<and> (\<exists>w \<in> troop.owner ` set ts.
               (\<forall>own \<in> troop.owner ` set ts. strength own ts \<le> strength w ts)
               \<and> fight (group_by_owner ts) =
                   [(w, max 0 (strength w ts
                        - (\<Sum>own \<in> troop.owner ` set ts - {w}. strength own ts)))])
         \<and> fight (group_by_owner [ex_troop 1 7, ex_troop 2 10]) = [(2, 3)]
         \<and> resolve_battle 0 [ex_troop 1 7, ex_troop 2 10] (s, ex_neutral3) =
             Returns (s, ex_neutral3\<lparr>factories :=
               [\<lparr>factory.owner = 0, cyborgs = 0, production = 0, production_disabled = 0\<rparr>]\<rparr>)"
proof -
  have agg: "\<forall>own. map_of (group_by_owner ts) own =
             (if own \<in> troop.owner ` set ts then Some (strength own ts) else None)"
    by (simp add: map_of_group)
  have win: "\<exists>w \<in> troop.owner ` set ts.
               (\<forall>own \<in> troop.owner ` set ts. strength own ts \<le> strength w ts)
               \<and> fight (group_by_owner ts) =
                   [(w, max 0 (strength w ts
                        - (\<Sum>own \<in> troop.owner ` set ts - {w}. strength own ts)))]"
    using fight_multi [OF assms] by blast
  have ex: "fight (group_by_owner [ex_troop 1 7, ex_troop 2 10]) = [(2, 3)]"
    by (simp add: group_by_owner_def count_troop_def fight_def ex_troop_def)
  have "index (factories ex_neutral3) 0 = Some 0"
    by (simp add: index_def ex_neutral3_def)
  then have "resolve_battle 0 [ex_troop 1 7, ex_troop 2 10] (s, ex_neutral3) =
             Returns (s, ex_neutral3\<lparr>factories :=
               [\<lparr>factory.owner = 0, cyborgs = 0, production = 0, production_disabled = 0\<rparr>]\<rparr>)"
    by (simp add: resolve_battle_def ex battle_factory_single ex_neutral3_def)
  with agg win ex show ?thesis by blast
qed

text \<open>
  The spec's example as an instance: two owners, strengths 7 and 10, survivor owner 2
  with \<open>10 - 7 = 3\<close>.
\<close>

theorem fight_several_owners_witness:
  "1 < card (troop.owner ` set [ex_troop 1 7, ex_troop 2 10])
   \<and> strength 1 [ex_troop 1 7, ex_troop 2 10] = 7
   \<and> strength 2 [ex_troop 1 7, ex_troop 2 10] = 10
   \<and> fight (group_by_owner [ex_troop 1 7, ex_troop 2 10]) = [(2, max 0 (10 - 7))]"
proof -
  have c: "1 < card (troop.owner ` set [ex_troop 1 7, ex_troop 2 10])"
    by (simp add: ex_troop_def)
  have s: "strength 1 [ex_troop 1 7, ex_troop 2 10] = 7"
    "strength 2 [ex_troop 1 7, ex_troop 2 10] = 10"
    by (simp_all add: strength_def ex_troop_def)
  from fight_several_owners [OF c]
  have "fight (group_by_owner [ex_troop 1 7, ex_troop 2 10]) = [(2, 3)]"
    by (rule conjunct1 [OF conjunct2 [OF conjunct2]])
  with c s show ?thesis by simp
qed

section \<open>The battle groups of a turn\<close>

lemma troops_loop_eq:
  "troops_loop todo kept battles = (kept @ in_flight todo, foldl join_battle battles (arrived todo))"
  by (induction todo arbitrary: kept battles)
     (simp_all add: arrived_def in_flight_def step_troop_def Let_def)

lemma keys_join_battle:
  "map fst (join_battle bs t) =
     (if troop.destination_factory t \<in> set (map fst bs) then map fst bs
      else map fst bs @ [troop.destination_factory t])"
  by (auto simp: join_battle_def Let_def split: prod.splits)

lemma map_of_append_troop:
  "map_of (map (\<lambda>(k, v). if k = a then (k, v @ [t]) else (k, v)) bs) k =
     (if k = a then map_option (\<lambda>v. v @ [t]) (map_of bs k) else map_of bs k)"
  by (induction bs) auto

lemma map_of_join_battle:
  "map_of (join_battle bs t) k =
     (if k = troop.destination_factory t
      then Some ((case map_of bs k of None \<Rightarrow> [] | Some v \<Rightarrow> v) @ [t])
      else map_of bs k)"
proof (cases "troop.destination_factory t \<in> set (map fst bs)")
  case True
  then obtain v where "map_of bs (troop.destination_factory t) = Some v"
    by (metis map_of_eq_None_iff not_None_eq set_map)
  with True show ?thesis
    by (simp add: join_battle_def Let_def map_of_append_troop)
next
  case False
  then have "map_of bs (troop.destination_factory t) = None"
    by (simp add: map_of_eq_None_iff)
  with False show ?thesis
    by (simp add: join_battle_def Let_def map_of_append_troop map_add_def split: option.splits)
qed

lemma battles_snoc: "foldl join_battle [] (ts @ [t]) = join_battle (foldl join_battle [] ts) t"
  by simp

lemma keys_battles:
  "set (map fst (foldl join_battle [] ts)) = troop.destination_factory ` set ts"
  by (induction ts rule: rev_induct) (auto simp: keys_join_battle)

lemma distinct_battles: "distinct (map fst (foldl join_battle [] ts))"
  by (induction ts rule: rev_induct) (auto simp: keys_join_battle)

lemma map_of_battles:
  "map_of (foldl join_battle [] ts) d =
     (if d \<in> troop.destination_factory ` set ts
      then Some (filter (\<lambda>t. troop.destination_factory t = d) ts) else None)"
proof (induction ts rule: rev_induct)
  case Nil
  then show ?case by simp
next
  case (snoc t ts)
  have "d \<notin> troop.destination_factory ` set ts
          \<Longrightarrow> filter (\<lambda>t. troop.destination_factory t = d) ts = []"
    by (auto simp: filter_empty_conv)
  with snoc show ?case
    by (auto simp: map_of_join_battle)
qed

lemma battle_group:
  assumes "(d, grp) \<in> set (foldl join_battle [] ts)"
  shows "grp = filter (\<lambda>t. troop.destination_factory t = d) ts \<and> grp \<noteq> []"
proof -
  have "map_of (foldl join_battle [] ts) d = Some grp"
    using assms distinct_battles by simp
  then show ?thesis
    by (auto simp: map_of_battles filter_empty_conv split: if_splits)
qed


text \<open>
  C10. The first loop of \<^verbatim>\<open>update_troops\<close> keeps the order of the active troop
  list, to which \<^verbatim>\<open>send_troop\<close> appends: the troops that stay in flight, and the
  troops of each battle group, stand in the order of that list. In a battle group with
  more than one owner the fight is won by the owner of the first troop of the group
  whose owner has maximal aggregated strength: every owner is at most as strong, and
  every troop before it belongs to a strictly weaker owner. Among equally strong
  owners the one whose first troop comes earliest in the list wins.
\<close>

theorem tie_break_first_arrival:
  assumes "(d, ts) \<in> set (snd (troops_loop todo [] []))"
    and "1 < card (troop.owner ` set ts)"
  shows "fst (troops_loop todo [] []) = in_flight todo
         \<and> ts = filter (\<lambda>t. troop.destination_factory t = d) (arrived todo)
         \<and> (\<exists>pre t post n. ts = pre @ t # post
               \<and> fight (group_by_owner ts) = [(troop.owner t, n)]
               \<and> (\<forall>u \<in> set ts. strength (troop.owner u) ts \<le> strength (troop.owner t) ts)
               \<and> (\<forall>u \<in> set pre. strength (troop.owner u) ts < strength (troop.owner t) ts))"
proof -
  have "(d, ts) \<in> set (foldl join_battle [] (arrived todo))"
    using assms(1) by (simp add: troops_loop_eq)
  then have "ts = filter (\<lambda>t. troop.destination_factory t = d) (arrived todo)"
    using battle_group by blast
  then show ?thesis
    using first_strongest_wins [OF assms(2)] by (simp add: troops_loop_eq)
qed

text \<open>
  Owners 2 and 1 arrive with 5 cyborgs each, owner 2's troop first in the active list,
  behind a troop that is still two turns away: owner 2 wins (with nothing left), and
  with the two troops in the other order owner 1 does.
\<close>

theorem tie_break_first_arrival_witness:
  "(2, [step_troop (ex_arriving 2 5), step_troop (ex_arriving 1 5)])
      \<in> set (snd (troops_loop [ex_troop 1 9, ex_arriving 2 5, ex_arriving 1 5] [] []))
   \<and> 1 < card (troop.owner ` set [step_troop (ex_arriving 2 5), step_troop (ex_arriving 1 5)])
   \<and> fst (troops_loop [ex_troop 1 9, ex_arriving 2 5, ex_arriving 1 5] [] [])
       = [step_troop (ex_troop 1 9)]
   \<and> fight (group_by_owner [step_troop (ex_arriving 2 5), step_troop (ex_arriving 1 5)])
       = [(2, 0)]
   \<and> fight (group_by_owner [step_troop (ex_arriving 1 5), step_troop (ex_arriving 2 5)])
       = [(1, 0)]"
proof -
  have m: "(2, [step_troop (ex_arriving 2 5), step_troop (ex_arriving 1 5)])
      \<in> set (snd (troops_loop [ex_troop 1 9, ex_arriving 2 5, ex_arriving 1 5] [] []))"
    by (simp add: ex_troop_def ex_arriving_def step_troop_def join_battle_def)
  have c: "1 < card (troop.owner ` set [step_troop (ex_arriving 2 5), step_troop (ex_arriving 1 5)])"
    by (simp add: ex_arriving_def step_troop_def)
  have k: "fst (troops_loop [ex_troop 1 9, ex_arriving 2 5, ex_arriving 1 5] [] [])
       = [step_troop (ex_troop 1 9)]"
    using tie_break_first_arrival [OF m c]
    by (simp add: in_flight_def ex_troop_def ex_arriving_def step_troop_def)
  have f: "fight (group_by_owner [step_troop (ex_arriving 2 5), step_troop (ex_arriving 1 5)])
       = [(2, 0)]"
    "fight (group_by_owner [step_troop (ex_arriving 1 5), step_troop (ex_arriving 2 5)])
       = [(1, 0)]"
    by (simp_all add: group_by_owner_def count_troop_def fight_def ex_arriving_def step_troop_def)
  from m c k f show ?thesis by simp
qed

section \<open>What a battle and a bomb leave unchanged\<close>

lemma py_max_in: "py_max f m xs \<in> set (m # xs)"
  by (induction xs arbitrary: m) auto

lemma battle_factory_disabled:
  "battle_factory cs f s = Inr (f', s') \<Longrightarrow> production_disabled f' = production_disabled f"
  by (auto simp: battle_factory_def Let_def split: option.splits if_splits list.splits prod.splits)

lemma battle_factory_neutral:
  assumes "battle_factory cs f s = Inr (f', s')"
    and "0 \<notin> fst ` set cs"
    and "factory.owner f = 0 \<longrightarrow> production f = 0"
  shows "factory.owner f' = 0 \<longrightarrow> production f' = 0"
proof -
  have "\<And>c cs'. cs = c # cs' \<Longrightarrow> fst (py_max snd c cs') \<noteq> 0"
    using py_max_in [of snd] assms(2) by (metis image_eqI)
  then show ?thesis
    using assms(1,3)
    by (auto simp: battle_factory_def Let_def split: option.splits if_splits list.splits prod.splits)
qed

lemma fight_keys: "fst ` set (fight cs) \<subseteq> fst ` set cs"
proof (cases "1 < length cs")
  case True
  show ?thesis
  proof (cases "sort_key (\<lambda>x. - snd x) cs")
    case Nil
    then show ?thesis using True by (simp add: fight_def)
  next
    case (Cons x xs)
    then have "x \<in> set cs" using set_sort [of "\<lambda>x. - snd x" cs] by auto
    then have "fst x \<in> fst ` set cs" by (rule imageI)
    then show ?thesis using True Cons by (cases x) (simp add: fight_def)
  qed
next
  case False
  then show ?thesis by (simp add: fight_def)
qed

lemma resolve_battle_cases:
  obtains (raises) e where "resolve_battle dest ts (s, g) = Raises e (s, g)"
  | (returns) i f' s' where "index (factories g) dest = Some i"
      "battle_factory (fight (group_by_owner ts)) (factories g ! i) s = Inr (f', s')"
      "resolve_battle dest ts (s, g) = Returns (s', g\<lparr>factories := (factories g)[i := f']\<rparr>)"
proof (cases "index (factories g) dest")
  case None
  then have "resolve_battle dest ts (s, g) = Raises IndexError (s, g)"
    by (simp add: resolve_battle_def)
  then show ?thesis by (rule raises)
next
  case (Some i)
  show ?thesis
  proof (cases "battle_factory (fight (group_by_owner ts)) (factories g ! i) s")
    case (Inl e)
    then have "resolve_battle dest ts (s, g) = Raises e (s, g)"
      using Some by (simp add: resolve_battle_def)
    then show ?thesis by (rule raises)
  next
    case (Inr r)
    obtain f' s' where r: "r = (f', s')" by (cases r)
    then have "resolve_battle dest ts (s, g) = Returns (s', g\<lparr>factories := (factories g)[i := f']\<rparr>)"
      using Some Inr by (simp add: resolve_battle_def)
    with Some Inr r show ?thesis by (intro returns) simp_all
  qed
qed

lemma resolve_battle_frame:
  assumes "state_of (resolve_battle dest ts (s, g)) = (s', g')"
  shows "length (factories g') = length (factories g)"
    and "troops g' = troops g" and "bombs g' = bombs g" and "distances g' = distances g"
    and "production_disabled (factories g' ! j) = production_disabled (factories g ! j)"
    and "index (factories g) dest \<noteq> Some j \<Longrightarrow> factories g' ! j = factories g ! j"
proof -
  show "length (factories g') = length (factories g)"
    using assms by (cases rule: resolve_battle_cases [of dest ts s g]) auto
  show "troops g' = troops g"
    using assms by (cases rule: resolve_battle_cases [of dest ts s g]) auto
  show "bombs g' = bombs g"
    using assms by (cases rule: resolve_battle_cases [of dest ts s g]) auto
  show "distances g' = distances g"
    using assms by (cases rule: resolve_battle_cases [of dest ts s g]) auto
  show "production_disabled (factories g' ! j) = production_disabled (factories g ! j)"
    using assms
  proof (cases rule: resolve_battle_cases [of dest ts s g])
    case (raises e)
    then show ?thesis using assms by simp
  next
    case (returns i f' s'')
    then show ?thesis
      using assms index_bound [OF returns(1)] battle_factory_disabled [OF returns(2)]
      by (cases "j = i") auto
  qed
  show "index (factories g) dest \<noteq> Some j \<Longrightarrow> factories g' ! j = factories g ! j"
    using assms by (cases rule: resolve_battle_cases [of dest ts s g]) auto
qed

lemma battles_loop_frame:
  assumes "state_of (battles_loop bs (s, g)) = (s', g')"
  shows "length (factories g') = length (factories g) \<and> troops g' = troops g
         \<and> bombs g' = bombs g \<and> distances g' = distances g
         \<and> production_disabled (factories g' ! j) = production_disabled (factories g ! j)
         \<and> ((\<forall>(d, ts) \<in> set bs. index (factories g) d \<noteq> Some j)
               \<longrightarrow> factories g' ! j = factories g ! j)"
  using assms
proof (induction bs arbitrary: s g)
  case Nil
  then show ?case by simp
next
  case (Cons b bs)
  obtain d ts where b: "b = (d, ts)" by (cases b)
  obtain s1 g1 where r: "state_of (resolve_battle d ts (s, g)) = (s1, g1)"
    by (cases "state_of (resolve_battle d ts (s, g))")
  note fr = resolve_battle_frame [OF r]
  show ?case
  proof (cases "resolve_battle d ts (s, g)")
    case (Raises e x)
    then have "(s', g') = (s1, g1)" using Cons.prems b r by simp
    then show ?thesis using fr by (auto simp: b)
  next
    case (Returns x)
    then have "state_of (battles_loop bs (s1, g1)) = (s', g')"
      using Cons.prems b r by simp
    from Cons.IH [OF this] show ?thesis
      using fr by (auto simp: b index_def)
  qed
qed

lemma index_length: "length xs = length ys \<Longrightarrow> index xs k = index ys k"
  by (simp add: index_def)

lemma resolve_bomb_frame:
  assumes "state_of (resolve_bomb b g) = g'"
  shows "length (factories g') = length (factories g) \<and> troops g' = troops g
         \<and> bombs g' = bombs g \<and> distances g' = distances g
         \<and> factory.owner (factories g' ! j) = factory.owner (factories g ! j)
         \<and> production (factories g' ! j) = production (factories g ! j)
         \<and> (index (factories g) (bomb.destination_factory b) \<noteq> Some j
               \<longrightarrow> factories g' ! j = factories g ! j)"
proof (cases "index (factories g) (bomb.destination_factory b)")
  case None
  then show ?thesis using assms by (auto simp: resolve_bomb_def)
next
  case (Some i)
  then show ?thesis
    using assms index_bound [OF Some]
    by (cases "j = i") (auto simp: resolve_bomb_def Let_def)
qed

lemma bombs_loop_frame:
  assumes "state_of (bombs_loop todo kept g) = g'"
  shows "length (factories g') = length (factories g) \<and> troops g' = troops g
         \<and> distances g' = distances g
         \<and> factory.owner (factories g' ! j) = factory.owner (factories g ! j)
         \<and> production (factories g' ! j) = production (factories g ! j)
         \<and> ((\<forall>b \<in> set todo. bomb.travel_time b = 1
                  \<longrightarrow> index (factories g) (bomb.destination_factory b) \<noteq> Some j)
               \<longrightarrow> factories g' ! j = factories g ! j)
         \<and> bomb.destination_factory ` set (bombs g')
               \<subseteq> bomb.destination_factory ` set (kept @ todo)"
  using assms
proof (induction todo arbitrary: kept g)
  case Nil
  then show ?case by auto
next
  case (Cons b todo)
  let ?b = "b\<lparr>bomb.travel_time := bomb.travel_time b - 1\<rparr>"
  show ?case
  proof (cases "bomb.travel_time ?b = 0")
    case False
    then have "state_of (bombs_loop todo (kept @ [?b]) g) = g'"
      using Cons.prems by (simp add: Let_def)
    from Cons.IH [OF this] show ?thesis by auto
  next
    case True
    obtain g1 where g1: "state_of (resolve_bomb ?b g) = g1" by simp
    have tt: "bomb.travel_time b = 1" using True by simp
    note fr = resolve_bomb_frame [OF g1, of j]
    show ?thesis
    proof (cases "resolve_bomb ?b g")
      case (Raises e x)
      then have "g' = g1\<lparr>bombs := kept @ ?b # todo\<rparr>"
        using Cons.prems True g1 by (simp add: Let_def)
      then show ?thesis using fr tt by auto
    next
      case (Returns x)
      then have "state_of (bombs_loop todo kept g1) = g'"
        using Cons.prems True g1 by (simp add: Let_def)
      from Cons.IH [OF this] show ?thesis
        using fr tt index_length [of "factories g1" "factories g"] by auto
    qed
  qed
qed

lemma arrived_dest:
  "troop.destination_factory ` set (arrived ts) \<subseteq> troop.destination_factory ` set ts"
  by (auto simp: arrived_def step_troop_def)

lemma in_flight_dest:
  "troop.destination_factory ` set (in_flight ts) \<subseteq> troop.destination_factory ` set ts"
  by (auto simp: in_flight_def step_troop_def)

lemma update_troops_eq:
  "update_troops (s, g) =
     battles_loop (foldl join_battle [] (arrived (troops g))) (s, g\<lparr>troops := in_flight (troops g)\<rparr>)"
  by (simp add: update_troops_def troops_loop_eq)

lemma update_returns:
  assumes "update (s, g) = Returns (s', g')"
  obtains s1 g1 g2 where "update_troops (s, g) = Returns (s1, g1)"
    "update_bombs g1 = Returns g2" "g' = g2\<lparr>factories := map produce (factories g2)\<rparr>" "s' = s1"
proof (cases "update_troops (s, g)")
  case (Raises e x)
  then show ?thesis using assms by (simp add: update_def)
next
  case (Returns x)
  obtain s1 g1 where x: "x = (s1, g1)" by (cases x)
  show ?thesis
  proof (cases "update_bombs g1")
    case (Raises e y)
    then show ?thesis using assms Returns x by (simp add: update_def)
  next
    case r: (Returns g2)
    then have "g' = g2\<lparr>factories := map produce (factories g2)\<rparr>" "s' = s1"
      using assms Returns x by (simp_all add: update_def)
    then show ?thesis using Returns x r that by simp
  qed
qed

lemma no_battle_at:
  assumes "\<forall>t \<in> set ts. index fs (troop.destination_factory t) \<noteq> Some j"
    and "(d, grp) \<in> set (foldl join_battle [] (arrived ts))"
  shows "index fs d \<noteq> Some j"
proof -
  have "d \<in> fst ` set (foldl join_battle [] (arrived ts))"
    using assms(2) by force
  then have "d \<in> troop.destination_factory ` set (arrived ts)"
    using keys_battles [of "arrived ts"] by simp
  then have "d \<in> troop.destination_factory ` set ts"
    using arrived_dest by blast
  then show ?thesis using assms(1) by auto
qed

lemma update_untargeted:
  assumes "update (s, g) = Returns (s', g')"
    and "untargeted j g"
  shows "length (factories g') = length (factories g)"
    and "untargeted j g'"
    and "j < length (factories g) \<Longrightarrow> factories g' ! j = produce (factories g ! j)"
proof -
  let ?g0 = "g\<lparr>troops := in_flight (troops g)\<rparr>"
  let ?bs = "foldl join_battle [] (arrived (troops g))"
  from assms(1) obtain s1 g1 g2 where t: "update_troops (s, g) = Returns (s1, g1)"
    and b: "update_bombs g1 = Returns g2"
    and g': "g' = g2\<lparr>factories := map produce (factories g2)\<rparr>"
    by (rule update_returns)
  have "state_of (battles_loop ?bs (s, ?g0)) = (s1, g1)"
    using t by (simp add: update_troops_eq)
  note f1 = battles_loop_frame [OF this, of j]
  have "state_of (bombs_loop (bombs g1) [] g1) = g2"
    using b by (simp add: update_bombs_def)
  note f2 = bombs_loop_frame [OF this, of j]
  have tr: "\<forall>t \<in> set (troops g). index (factories g) (troop.destination_factory t) \<noteq> Some j"
    and bo: "\<forall>b \<in> set (bombs g). index (factories g) (bomb.destination_factory b) \<noteq> Some j"
    using assms(2) by (simp_all add: untargeted_def)
  have no_battle: "\<forall>(d, ts) \<in> set ?bs. index (factories ?g0) d \<noteq> Some j"
    using no_battle_at [OF tr] by auto
  have l1: "length (factories g1) = length (factories g)" and b1: "bombs g1 = bombs g"
    and t1: "troops g1 = in_flight (troops g)"
    using f1 by simp_all
  have same1: "factories g1 ! j = factories g ! j"
    using f1 no_battle by simp
  have no_bomb: "\<forall>b \<in> set (bombs g1). index (factories g1) (bomb.destination_factory b) \<noteq> Some j"
    using bo b1 index_length [OF l1] by simp
  have l2: "length (factories g2) = length (factories g1)" and t2: "troops g2 = troops g1"
    and b2: "bomb.destination_factory ` set (bombs g2) \<subseteq> bomb.destination_factory ` set (bombs g1)"
    using f2 by simp_all
  have same2: "factories g2 ! j = factories g1 ! j"
    using f2 no_bomb by simp
  show len: "length (factories g') = length (factories g)"
    using l1 l2 g' by simp
  have idx: "\<And>k. index (factories g') k = index (factories g) k"
    using len by (rule index_length)
  have "\<forall>t \<in> set (troops g'). index (factories g') (troop.destination_factory t) \<noteq> Some j"
  proof
    fix t assume "t \<in> set (troops g')"
    then have "t \<in> set (in_flight (troops g))" using g' t2 t1 by simp
    then have "troop.destination_factory t \<in> troop.destination_factory ` set (troops g)"
      using in_flight_dest by blast
    then show "index (factories g') (troop.destination_factory t) \<noteq> Some j"
      unfolding idx using tr by auto
  qed
  moreover have "\<forall>b \<in> set (bombs g'). index (factories g') (bomb.destination_factory b) \<noteq> Some j"
  proof
    fix b assume "b \<in> set (bombs g')"
    then have "bomb.destination_factory b \<in> bomb.destination_factory ` set (bombs g)"
      using g' b2 b1 by auto
    then show "index (factories g') (bomb.destination_factory b) \<noteq> Some j"
      unfolding idx using bo by auto
  qed
  ultimately show "untargeted j g'" by (simp add: untargeted_def)
  show "factories g' ! j = produce (factories g ! j)" if "j < length (factories g)"
    using that same1 same2 l1 l2 g' by simp
qed

section \<open>Production after a bomb\<close>

lemma updates_untargeted:
  assumes "updates k (s, g) = Returns (s', g')"
    and "untargeted j g"
    and "j < length (factories g)"
  shows "factories g' ! j = (produce ^^ k) (factories g ! j) \<and> untargeted j g'
         \<and> length (factories g') = length (factories g)"
  using assms
proof (induction k arbitrary: s g)
  case 0
  then show ?case by simp
next
  case (Suc k)
  then obtain s1 g1 where u: "update (s, g) = Returns (s1, g1)"
    and r: "updates k (s1, g1) = Returns (s', g')"
    by (auto split: outcome.splits)
  note st = update_untargeted [OF u Suc.prems(2)]
  have "j < length (factories g1)" using st(1) Suc.prems(3) by simp
  from Suc.IH [OF r st(2) this] show ?case
    using st(1) st(3) [OF Suc.prems(3)] by (simp add: funpow_swap1)
qed

lemma updates_add:
  "updates (k + m) sg =
     (case updates k sg of Raises e x \<Rightarrow> Raises e x | Returns x \<Rightarrow> updates m x)"
  by (induction k arbitrary: sg) (auto split: outcome.splits)

lemma updates_prefix:
  assumes "updates n sg = Returns x" and "k \<le> n"
  shows "\<exists>y. updates k sg = Returns y"
proof -
  have "updates (k + (n - k)) sg = Returns x" using assms by simp
  then show ?thesis
    unfolding updates_add by (cases "updates k sg") auto
qed

lemma produce_disabled:
  assumes "production_disabled f = int n" and "k \<le> n"
  shows "(produce ^^ k) f = f\<lparr>production_disabled := int n - int k\<rparr>"
  using assms(2)
proof (induction k)
  case 0
  then show ?case using assms(1) by simp
next
  case (Suc k)
  then show ?case by (simp add: produce_def)
qed

lemma produce_resumes:
  assumes "production_disabled f = int n"
  shows "(produce ^^ Suc n) f =
     (if factory.owner f \<noteq> 0
      then f\<lparr>production_disabled := 0, cyborgs := cyborgs f + production f\<rparr>
      else f\<lparr>production_disabled := 0\<rparr>)"
  using produce_disabled [OF assms, of n] by (simp add: produce_def)


lemma update_quiet:
  assumes "troops g = []" and "bombs g = []"
  shows "update (s, g) = Returns (s, g\<lparr>factories := map produce (factories g)\<rparr>)"
  using assms by (simp add: update_def update_troops_def update_bombs_def)


text \<open>
  C9. Let a bomb resolve at factory \<open>i\<close> (\<^verbatim>\<open>resolve_bomb\<close> sets the counter to 5),
  with no troop and no bomb in flight bound for that factory, and let the next six
  calls of \<^verbatim>\<open>update\<close> return. After \<open>k \<le> 5\<close> of them the factory has the cyborgs
  the bomb left and the counter \<open>5 - k\<close>: no production, one decrement per call, down
  to 0. The sixth call adds the production rate to the cyborgs. (For a neutral
  factory the sixth call adds nothing, which is the same when its rate is 0.) The
  count starts at the state \<^verbatim>\<open>resolve_bomb\<close> leaves: when the bomb resolves inside a
  call of \<^verbatim>\<open>update\<close>, the production phase of that call comes after it and is the
  first of the five.
\<close>

theorem bomb_disables_five_turns:
  assumes "index (factories g0) (bomb.destination_factory b) = Some i"
    and "resolve_bomb b g0 = Returns g"
    and "untargeted i g"
    and "factory.owner (factories g ! i) = 0 \<longrightarrow> production (factories g ! i) = 0"
    and "updates 6 (s, g) = Returns (s6, g6)"
    and "k \<le> 5"
  shows "production_disabled (factories g ! i) = 5
         \<and> (\<exists>sk gk. updates k (s, g) = Returns (sk, gk)
               \<and> cyborgs (factories gk ! i) = cyborgs (factories g ! i)
               \<and> production_disabled (factories gk ! i) = 5 - int k)
         \<and> cyborgs (factories g6 ! i) = cyborgs (factories g ! i) + production (factories g ! i)
         \<and> production_disabled (factories g6 ! i) = 0"
proof -
  have i: "i < length (factories g0)" using assms(1) by (rule index_bound)
  have g: "g = g0\<lparr>factories := (factories g0)
              [i := (factories g0 ! i)
                 \<lparr>cyborgs := cyborgs (factories g0 ! i) - max 10 (cyborgs (factories g0 ! i) div 2),
                  production_disabled := 5\<rparr>]\<rparr>"
    using assms(1,2) by (simp add: resolve_bomb_def Let_def)
  have d: "production_disabled (factories g ! i) = int 5"
    and ig: "i < length (factories g)"
    using i by (simp_all add: g)
  obtain y where "updates k (s, g) = Returns y"
    using updates_prefix [OF assms(5), of k] assms(6) by auto
  then obtain sk gk where k: "updates k (s, g) = Returns (sk, gk)" by (cases y) simp
  have "factories gk ! i = (produce ^^ k) (factories g ! i)"
    using updates_untargeted [OF k assms(3) ig] by simp
  then have fk: "factories gk ! i = (factories g ! i)\<lparr>production_disabled := int 5 - int k\<rparr>"
    using produce_disabled [OF d assms(6)] by simp
  have "factories g6 ! i = (produce ^^ Suc 5) (factories g ! i)"
    using updates_untargeted [OF assms(5) assms(3) ig] by (simp add: eval_nat_numeral)
  then have f6: "factories g6 ! i =
     (if factory.owner (factories g ! i) \<noteq> 0
      then (factories g ! i)\<lparr>production_disabled := 0,
             cyborgs := cyborgs (factories g ! i) + production (factories g ! i)\<rparr>
      else (factories g ! i)\<lparr>production_disabled := 0\<rparr>)"
    using produce_resumes [OF d] by simp
  have "cyborgs (factories g6 ! i) = cyborgs (factories g ! i) + production (factories g ! i)"
    "production_disabled (factories g6 ! i) = 0"
    using f6 assms(4) by auto
  moreover have "\<exists>sk gk. updates k (s, g) = Returns (sk, gk)
               \<and> cyborgs (factories gk ! i) = cyborgs (factories g ! i)
               \<and> production_disabled (factories gk ! i) = 5 - int k"
    using k fk by simp
  ultimately show ?thesis using d by simp
qed

text \<open>
  The spec's example: 12 cyborgs, 2 after the bomb; five calls later still 2 and the
  counter at 0, after the sixth call \<open>2 + 2\<close>.
\<close>

theorem bomb_disables_five_turns_witness:
  "index (factories ex_game) (bomb.destination_factory (ex_bomb 0)) = Some 0
   \<and> resolve_bomb (ex_bomb 0) ex_game = Returns ex_bombed
   \<and> untargeted 0 ex_bombed
   \<and> updates 5 (sconst 0, ex_bombed) = Returns (sconst 0, ex_game\<lparr>factories :=
       [\<lparr>factory.owner = 1, cyborgs = 2, production = 2, production_disabled = 0\<rparr>,
        \<lparr>factory.owner = 2, cyborgs = 15, production = 1, production_disabled = 0\<rparr>,
        \<lparr>factory.owner = 0, cyborgs = 8, production = 0, production_disabled = 0\<rparr>]\<rparr>)
   \<and> updates 6 (sconst 0, ex_bombed) = Returns (sconst 0, ex_game\<lparr>factories :=
       [\<lparr>factory.owner = 1, cyborgs = 4, production = 2, production_disabled = 0\<rparr>,
        \<lparr>factory.owner = 2, cyborgs = 16, production = 1, production_disabled = 0\<rparr>,
        \<lparr>factory.owner = 0, cyborgs = 8, production = 0, production_disabled = 0\<rparr>]\<rparr>)"
proof -
  have h: "index (factories ex_game) (bomb.destination_factory (ex_bomb 0)) = Some 0"
    by (simp add: ex_game_def ex_bomb_def index_ex_factories)
  have r: "resolve_bomb (ex_bomb 0) ex_game = Returns ex_bombed"
    using h by (simp add: resolve_bomb_def ex_bombed_def ex_game_def ex_factories_def)
  have u: "untargeted 0 ex_bombed"
    by (simp add: untargeted_def ex_bombed_def ex_game_def)
  have n: "factory.owner (factories ex_bombed ! 0) = 0 \<longrightarrow> production (factories ex_bombed ! 0) = 0"
    by (simp add: ex_bombed_def)
  have u5: "updates 5 (sconst 0, ex_bombed) = Returns (sconst 0, ex_game\<lparr>factories :=
       [\<lparr>factory.owner = 1, cyborgs = 2, production = 2, production_disabled = 0\<rparr>,
        \<lparr>factory.owner = 2, cyborgs = 15, production = 1, production_disabled = 0\<rparr>,
        \<lparr>factory.owner = 0, cyborgs = 8, production = 0, production_disabled = 0\<rparr>]\<rparr>)"
    by (simp add: eval_nat_numeral update_quiet produce_def ex_bombed_def ex_game_def)
  have u6: "updates 6 (sconst 0, ex_bombed) = Returns (sconst 0, ex_game\<lparr>factories :=
       [\<lparr>factory.owner = 1, cyborgs = 4, production = 2, production_disabled = 0\<rparr>,
        \<lparr>factory.owner = 2, cyborgs = 16, production = 1, production_disabled = 0\<rparr>,
        \<lparr>factory.owner = 0, cyborgs = 8, production = 0, production_disabled = 0\<rparr>]\<rparr>)"
    by (simp add: eval_nat_numeral update_quiet produce_def ex_bombed_def ex_game_def)
  have k: "(5::nat) \<le> 5" by simp
  show ?thesis
    using h r u u5 u6 bomb_disables_five_turns [OF h r u n u6 k] by simp
qed


section \<open>Conquest and production in one turn\<close>

lemma ex_attack_battle:
  "update_troops (sconst 3, ex_attack) = Returns (sconst 3, ex_game\<lparr>factories :=
       [\<lparr>factory.owner = 1, cyborgs = 12, production = 2, production_disabled = 0\<rparr>,
        \<lparr>factory.owner = 2, cyborgs = 10, production = 1, production_disabled = 0\<rparr>,
        \<lparr>factory.owner = 1, cyborgs = 4, production = 3, production_disabled = 0\<rparr>]\<rparr>)"
  by (simp add: update_troops_def ex_attack_def ex_arriving_def join_battle_def
      resolve_battle_def group_single fight_def battle_factory_single randint_def
      ex_game_def index_def ex_factories_def)

lemma ex_attack_update:
  "update (sconst 3, ex_attack) = Returns (sconst 3, ex_game\<lparr>factories :=
       [\<lparr>factory.owner = 1, cyborgs = 14, production = 2, production_disabled = 0\<rparr>,
        \<lparr>factory.owner = 2, cyborgs = 11, production = 1, production_disabled = 0\<rparr>,
        \<lparr>factory.owner = 1, cyborgs = 7, production = 3, production_disabled = 0\<rparr>]\<rparr>)"
  using ex_attack_battle
  by (simp add: update_def update_bombs_def produce_def ex_game_def)

text \<open>
  C1 as stated fails: 12 cyborgs of player 1 arrive at the neutral factory 2 (8
  cyborgs). The battle phase leaves it to player 1 with 4 cyborgs and the production
  rate 3 that the generator gives; the production phase of the same call adds that
  rate, and the call returns with 7 cyborgs there.
\<close>

theorem conquest_then_production_same_call:
  "update_troops (sconst 3, ex_attack) = Returns (sconst 3, ex_game\<lparr>factories :=
       [\<lparr>factory.owner = 1, cyborgs = 12, production = 2, production_disabled = 0\<rparr>,
        \<lparr>factory.owner = 2, cyborgs = 10, production = 1, production_disabled = 0\<rparr>,
        \<lparr>factory.owner = 1, cyborgs = 4, production = 3, production_disabled = 0\<rparr>]\<rparr>)
   \<and> update (sconst 3, ex_attack) = Returns (sconst 3, ex_game\<lparr>factories :=
       [\<lparr>factory.owner = 1, cyborgs = 14, production = 2, production_disabled = 0\<rparr>,
        \<lparr>factory.owner = 2, cyborgs = 11, production = 1, production_disabled = 0\<rparr>,
        \<lparr>factory.owner = 1, cyborgs = 7, production = 3, production_disabled = 0\<rparr>]\<rparr>)"
  using ex_attack_battle ex_attack_update by (rule conjI)

text \<open>
  C1 as amended. A factory that changes owner in the battle phase of a call of
  \<^verbatim>\<open>update\<close>, to an owner other than neutral, whose production-disabled counter was
  0 and at which no bomb arrives in the same call, has its new production rate added
  to its cyborgs by the production phase of that same call.
\<close>

theorem conquered_factory_produces:
  assumes "update_troops (s, g) = Returns (s1, g1)"
    and "update (s, g) = Returns (s', g')"
    and "i < length (factories g)"
    and "factory.owner (factories g1 ! i) \<noteq> factory.owner (factories g ! i)"
    and "factory.owner (factories g1 ! i) \<noteq> 0"
    and "production_disabled (factories g ! i) = 0"
    and "\<forall>b \<in> set (bombs g). bomb.travel_time b = 1
           \<longrightarrow> index (factories g) (bomb.destination_factory b) \<noteq> Some i"
  shows "cyborgs (factories g' ! i) = cyborgs (factories g1 ! i) + production (factories g1 ! i)"
proof -
  from assms(2) obtain s1' g1' g2 where t: "update_troops (s, g) = Returns (s1', g1')"
    and b: "update_bombs g1' = Returns g2"
    and g': "g' = g2\<lparr>factories := map produce (factories g2)\<rparr>"
    by (rule update_returns)
  have eq: "g1' = g1" using t assms(1) by simp
  have "state_of (battles_loop (foldl join_battle [] (arrived (troops g)))
          (s, g\<lparr>troops := in_flight (troops g)\<rparr>)) = (s1, g1)"
    using assms(1) by (simp add: update_troops_eq)
  note f1 = battles_loop_frame [OF this, of i]
  have "state_of (bombs_loop (bombs g1) [] g1) = g2"
    using b eq by (simp add: update_bombs_def)
  note f2 = bombs_loop_frame [OF this, of i]
  have l1: "length (factories g1) = length (factories g)" and b1: "bombs g1 = bombs g"
    and d1: "production_disabled (factories g1 ! i) = 0"
    using f1 assms(6) by simp_all
  have "\<forall>b \<in> set (bombs g1). bomb.travel_time b = 1
           \<longrightarrow> index (factories g1) (bomb.destination_factory b) \<noteq> Some i"
    using assms(7) b1 index_length [OF l1] by simp
  then have same: "factories g2 ! i = factories g1 ! i" using f2 by simp
  have "i < length (factories g2)" using f2 l1 assms(3) by simp
  then have "factories g' ! i = produce (factories g1 ! i)"
    using g' same by simp
  then show ?thesis using d1 assms(5) by (simp add: produce_def)
qed


theorem conquered_factory_produces_witness:
  "cyborgs (factories (snd (state_of (update (sconst 3, ex_attack)))) ! 2)
     = cyborgs (factories (snd (state_of (update_troops (sconst 3, ex_attack)))) ! 2)
       + production (factories (snd (state_of (update_troops (sconst 3, ex_attack)))) ! 2)
   \<and> factory.owner (factories (snd (state_of (update_troops (sconst 3, ex_attack)))) ! 2) = 1
   \<and> factory.owner (factories ex_attack ! 2) = 0
   \<and> production (factories (snd (state_of (update_troops (sconst 3, ex_attack)))) ! 2) = 3"
proof -
  note c = conjI [OF ex_attack_battle ex_attack_update]
  have a: "cyborgs (factories (snd (state_of (update (sconst 3, ex_attack)))) ! 2)
     = cyborgs (factories (snd (state_of (update_troops (sconst 3, ex_attack)))) ! 2)
       + production (factories (snd (state_of (update_troops (sconst 3, ex_attack)))) ! 2)"
    unfolding conjunct1 [OF c] conjunct2 [OF c] state_of.simps snd_conv
    by (rule conquered_factory_produces [OF conjunct1 [OF c] conjunct2 [OF c]])
       (simp_all add: ex_attack_def ex_game_def ex_factories_def)
  have b: "factory.owner (factories (snd (state_of (update_troops (sconst 3, ex_attack)))) ! 2) = 1"
    "production (factories (snd (state_of (update_troops (sconst 3, ex_attack)))) ! 2) = 3"
    by (simp_all add: conjunct1 [OF c])
  have "factory.owner (factories ex_attack ! 2) = 0"
    by (simp add: ex_attack_def ex_game_def ex_factories_def)
  with a b show ?thesis by (intro conjI)
qed

section \<open>A run of the initialisation\<close>

lemma ex_neutral_factories:
  "neutral_factories 3 ex_rng =
     ([\<lparr>factory.owner = 0, cyborgs = 15, production = 0, production_disabled = 0\<rparr>,
       \<lparr>factory.owner = 0, cyborgs = 15, production = 0, production_disabled = 0\<rparr>,
       \<lparr>factory.owner = 0, cyborgs = 15, production = 0, production_disabled = 0\<rparr>],
      [1, 2, 0, 1, 0, 1, 1, 0] @- sconst 0)"
  by (simp add: numeral_3_eq_3 Factory_init_def randint_def ex_rng_def)

lemma ex_factories_init:
  "initialize_factories 3 ex_rng = Inr (factories ex_init, [0, 1, 0, 1, 1, 0] @- sconst 0)"
  by (simp add: initialize_factories_def ex_neutral_factories randint_def index_def ex_init_def)

lemma ex_links:
  "initialize_distances 3 1 Map.empty ([0, 1, 0, 1, 1, 0] @- sconst 0)
     = Some (Inr (distances ex_init, sconst 0))"
  unfolding initialize_distances_def
  apply (subst links_loop.simps)
  apply (simp add: sample2_def randint_def)
  apply (subst links_loop.simps)
  apply (simp add: sample2_def randint_def)
  apply (subst links_loop.simps)
  apply (simp add: ex_init_def)
  done

lemma ex_Game_init: "Game_init 3 1 ex_rng = Some (Inr (ex_init, sconst 0))"
proof -
  have "\<lparr>factories = factories ex_init, troops = [], bombs = [],
         distances = distances ex_init\<rparr> = ex_init"
    by (simp add: ex_init_def)
  then show ?thesis
    unfolding Game_init_def
    by (simp only: ex_factories_init ex_links sum.case prod.case option.case)
qed

section \<open>Neutral factories\<close>

lemma neutral_factories_neutral:
  "neutral_factories n s = (fs, s') \<Longrightarrow> \<forall>f \<in> set fs. production f = 0"
  by (induction n arbitrary: s fs s')
     (auto simp: Factory_init_def split: prod.splits)

lemma set_update_all:
  "\<forall>f \<in> set fs. P f \<Longrightarrow> P x \<Longrightarrow> \<forall>f \<in> set (fs[i := x]). P f"
  using set_update_subset_insert [of fs i x] by auto


lemma initialize_factories_neutral:
  assumes "initialize_factories n s = Inr (fs, s')"
  shows "\<forall>f \<in> set fs. factory.owner f = 0 \<longrightarrow> production f = 0"
proof -
  obtain fs0 s0 where n: "neutral_factories (nat n) s = (fs0, s0)"
    by (cases "neutral_factories (nat n) s")
  obtain p0 s2 where r0: "randint 0 3 s0 = (p0, s2)" by (cases "randint 0 3 s0")
  obtain p1 s3 where r1: "randint 0 3 s2 = (p1, s3)" by (cases "randint 0 3 s2")
  have p: "\<forall>f \<in> set fs0. factory.owner f = 0 \<longrightarrow> production f = 0"
    using neutral_factories_neutral [OF n] by simp
  show ?thesis
  proof (cases "index fs0 0")
    case None
    then show ?thesis using assms by (simp add: initialize_factories_def n r0)
  next
    case i0: (Some i0)
    let ?fs1 = "fs0[i0 := (fs0 ! i0)\<lparr>factory.owner := 1, production := p0\<rparr>]"
    have p1: "\<forall>f \<in> set ?fs1. factory.owner f = 0 \<longrightarrow> production f = 0"
      using p by (rule set_update_all) simp
    show ?thesis
    proof (cases "index ?fs1 1")
      case None
      then show ?thesis using assms by (simp add: initialize_factories_def n r0 r1 i0 Let_def)
    next
      case (Some i1)
      then have "fs = ?fs1[i1 := (?fs1 ! i1)\<lparr>factory.owner := 2, production := p1\<rparr>]"
        using assms by (simp add: initialize_factories_def n r0 r1 i0 Let_def)
      moreover have "\<forall>f \<in> set (?fs1[i1 := (?fs1 ! i1)\<lparr>factory.owner := 2, production := p1\<rparr>]).
                        factory.owner f = 0 \<longrightarrow> production f = 0"
        using p1 by (rule set_update_all) simp
      ultimately show ?thesis by (simp only:)
    qed
  qed
qed

lemma Game_init_inv:
  assumes "Game_init n l s = Some (Inr (g, s'))"
  shows "neutral_unproductive g \<and> no_neutral_troop g"
proof -
  obtain fs s1 d where "initialize_factories n s = Inr (fs, s1)"
    and "g = \<lparr>factories = fs, troops = [], bombs = [], distances = d\<rparr>"
    using assms
    by (auto simp: Game_init_def split: sum.splits prod.splits option.splits)
  then show ?thesis
    using initialize_factories_neutral
    by (simp add: neutral_unproductive_def no_neutral_troop_def)
qed


lemma send_troop_inv:
  assumes "state_of (send_troop own n src dst g) = g'" and "own \<noteq> 0"
    and "neutral_unproductive g \<and> no_neutral_troop g"
  shows "neutral_unproductive g' \<and> no_neutral_troop g'"
proof (cases "send_troop own n src dst g")
  case (Raises e x)
  then have "g' = g" using assms(1)
    by (auto simp: send_troop_def split: option.splits if_splits)
  then show ?thesis using assms(3) by simp
next
  case (Returns x)
  then obtain i where i: "index (factories g) src = Some i"
    and g': "g' = g\<lparr>troops := troops g @
                  [\<lparr>troop.owner = own, num_cyborgs = n, source_factory = src,
                    destination_factory = dst, travel_time = distance_or_20 g src dst\<rparr>],
               factories := (factories g)
                  [i := (factories g ! i)\<lparr>cyborgs := cyborgs (factories g ! i) - n\<rparr>]\<rparr>"
    using assms(1) by (auto simp: send_troop_def split: option.splits if_splits)
  have "factories g ! i \<in> set (factories g)"
    using index_bound [OF i] by simp
  then have "\<forall>f \<in> set ((factories g)
                  [i := (factories g ! i)\<lparr>cyborgs := cyborgs (factories g ! i) - n\<rparr>]).
               factory.owner f = 0 \<longrightarrow> production f = 0"
    using assms(3) by (intro set_update_all) (auto simp: neutral_unproductive_def)
  then show ?thesis
    using assms(2,3) g' by (simp add: neutral_unproductive_def no_neutral_troop_def)
qed


lemma send_bomb_state:
  "state_of (send_bomb own src dst g) = g
   \<or> (\<exists>b. state_of (send_bomb own src dst g) = g\<lparr>bombs := bombs g @ [b]\<rparr>)"
  by (auto simp: send_bomb_def split: option.splits)

lemma send_bomb_inv:
  assumes "state_of (send_bomb own src dst g) = g'"
    and "neutral_unproductive g \<and> no_neutral_troop g"
  shows "neutral_unproductive g' \<and> no_neutral_troop g'"
  using send_bomb_state [of own src dst g] assms
  by (auto simp: neutral_unproductive_def no_neutral_troop_def)

lemma group_owners:
  assumes "(d, ts) \<in> set (foldl join_battle [] (arrived todo))"
  shows "troop.owner ` set ts \<subseteq> troop.owner ` set todo"
proof -
  have "ts = filter (\<lambda>t. troop.destination_factory t = d) (arrived todo)"
    using battle_group [OF assms] by simp
  then show ?thesis by (auto simp: arrived_def step_troop_def)
qed

lemma resolve_battle_neutral:
  assumes "state_of (resolve_battle d ts (s, g)) = (s', g')"
    and "0 \<notin> troop.owner ` set ts"
    and "neutral_unproductive g"
  shows "neutral_unproductive g'"
proof (cases rule: resolve_battle_cases [of d ts s g])
  case (raises e)
  then show ?thesis using assms by simp
next
  case (returns i f' s1)
  have "fst ` set (fight (group_by_owner ts)) \<subseteq> troop.owner ` set ts"
    using fight_keys [of "group_by_owner ts"] keys_group [of ts] by simp
  then have k: "0 \<notin> fst ` set (fight (group_by_owner ts))"
    using assms(2) by blast
  have fi: "factories g ! i \<in> set (factories g)"
    using index_bound [OF returns(1)] by simp
  then have "factory.owner (factories g ! i) = 0 \<longrightarrow> production (factories g ! i) = 0"
    using assms(3) by (simp add: neutral_unproductive_def)
  from battle_factory_neutral [OF returns(2) k this]
  have "\<forall>f \<in> set ((factories g)[i := f']). factory.owner f = 0 \<longrightarrow> production f = 0"
    using assms(3) by (intro set_update_all) (simp_all add: neutral_unproductive_def)
  moreover have "g' = g\<lparr>factories := (factories g)[i := f']\<rparr>"
    using assms(1) returns(3) by simp
  ultimately show ?thesis by (simp add: neutral_unproductive_def)
qed

lemma battles_loop_neutral:
  assumes "state_of (battles_loop bs (s, g)) = (s', g')"
    and "\<forall>(d, ts) \<in> set bs. 0 \<notin> troop.owner ` set ts"
    and "neutral_unproductive g"
  shows "neutral_unproductive g'"
  using assms
proof (induction bs arbitrary: s g)
  case Nil
  then show ?case by simp
next
  case (Cons b bs)
  obtain d ts where b: "b = (d, ts)" by (cases b)
  obtain s1 g1 where r: "state_of (resolve_battle d ts (s, g)) = (s1, g1)"
    by (cases "state_of (resolve_battle d ts (s, g))")
  have n1: "neutral_unproductive g1"
    using resolve_battle_neutral [OF r] Cons.prems(2,3) b by simp
  show ?case
  proof (cases "resolve_battle d ts (s, g)")
    case (Raises e x)
    then have "g' = g1" using Cons.prems(1) b r by simp
    then show ?thesis using n1 by simp
  next
    case (Returns x)
    then have "state_of (battles_loop bs (s1, g1)) = (s', g')"
      using Cons.prems(1) b r by simp
    from Cons.IH [OF this _ n1] show ?thesis using Cons.prems(2) by simp
  qed
qed

lemma neutral_unproductive_nth:
  "neutral_unproductive g \<longleftrightarrow>
     (\<forall>j < length (factories g).
        factory.owner (factories g ! j) = 0 \<longrightarrow> production (factories g ! j) = 0)"
  by (simp add: neutral_unproductive_def all_set_conv_all_nth)

lemma produce_owner: "factory.owner (produce f) = factory.owner f"
  and produce_production: "production (produce f) = production f"
  by (simp_all add: produce_def)

lemma in_flight_owner: "troop.owner ` set (in_flight ts) \<subseteq> troop.owner ` set ts"
  by (auto simp: in_flight_def step_troop_def)

lemma update_troops_inv:
  assumes "state_of (update_troops (s, g)) = (s1, g1)"
    and "neutral_unproductive g \<and> no_neutral_troop g"
  shows "neutral_unproductive g1 \<and> no_neutral_troop g1"
proof -
  let ?g0 = "g\<lparr>troops := in_flight (troops g)\<rparr>"
  let ?bs = "foldl join_battle [] (arrived (troops g))"
  have st: "state_of (battles_loop ?bs (s, ?g0)) = (s1, g1)"
    using assms(1) by (simp add: update_troops_eq)
  have no0: "0 \<notin> troop.owner ` set (troops g)"
    using assms(2) by (auto simp: no_neutral_troop_def)
  have "\<forall>(d, ts) \<in> set ?bs. 0 \<notin> troop.owner ` set ts"
    using group_owners [of _ _ "troops g"] no0 by blast
  moreover have "neutral_unproductive ?g0"
    using assms(2) by (simp add: neutral_unproductive_def)
  ultimately have "neutral_unproductive g1"
    using battles_loop_neutral [OF st] by simp
  moreover have "troops g1 = in_flight (troops g)"
    using battles_loop_frame [OF st] by simp
  then have "no_neutral_troop g1"
    using in_flight_owner [of "troops g"] no0 by (auto simp: no_neutral_troop_def)
  ultimately show ?thesis by simp
qed

lemma update_bombs_inv:
  assumes "state_of (update_bombs g1) = g2"
    and "neutral_unproductive g1 \<and> no_neutral_troop g1"
  shows "neutral_unproductive g2 \<and> no_neutral_troop g2"
proof -
  have st: "state_of (bombs_loop (bombs g1) [] g1) = g2"
    using assms(1) by (simp add: update_bombs_def)
  have "neutral_unproductive g2"
    unfolding neutral_unproductive_nth
  proof (intro allI impI)
    fix j assume "j < length (factories g2)" "factory.owner (factories g2 ! j) = 0"
    then show "production (factories g2 ! j) = 0"
      using bombs_loop_frame [OF st, of j] assms(2)
      by (simp add: neutral_unproductive_nth)
  qed
  moreover have "troops g2 = troops g1"
    using bombs_loop_frame [OF st] by simp
  ultimately show ?thesis using assms(2) by (simp add: no_neutral_troop_def)
qed

lemma update_state:
  "state_of (update (s, g)) =
     (case update_troops (s, g) of
        Raises e sg1 \<Rightarrow> sg1
      | Returns (s1, g1) \<Rightarrow>
          (case update_bombs g1 of
             Raises e g2 \<Rightarrow> (s1, g2)
           | Returns g2 \<Rightarrow> (s1, g2\<lparr>factories := map produce (factories g2)\<rparr>)))"
  by (simp add: update_def split: outcome.splits prod.splits)

lemma update_inv:
  assumes "state_of (update (s, g)) = (s', g')"
    and "neutral_unproductive g \<and> no_neutral_troop g"
  shows "neutral_unproductive g' \<and> no_neutral_troop g'"
proof -
  obtain s1 g1 where t: "state_of (update_troops (s, g)) = (s1, g1)"
    by (cases "state_of (update_troops (s, g))")
  note i1 = update_troops_inv [OF t assms(2)]
  show ?thesis
  proof (cases "update_troops (s, g)")
    case (Raises e x)
    then have "g' = g1" using assms(1) t by (simp add: update_state)
    then show ?thesis using i1 by simp
  next
    case r: (Returns x)
    then have x: "x = (s1, g1)" using t by simp
    obtain g2 where b: "state_of (update_bombs g1) = g2" by simp
    note i2 = update_bombs_inv [OF b i1]
    show ?thesis
    proof (cases "update_bombs g1")
      case (Raises e y)
      then have "g' = g2" using assms(1) r x b by (simp add: update_state)
      then show ?thesis using i2 by simp
    next
      case (Returns y)
      then have "g' = g2\<lparr>factories := map produce (factories g2)\<rparr>"
        using assms(1) r x b by (simp add: update_state)
      then show ?thesis
        using i2 by (simp add: neutral_unproductive_nth no_neutral_troop_def
            produce_owner produce_production)
    qed
  qed
qed

lemma reachable_inv:
  assumes "reachable callers g" and "0 \<notin> callers"
  shows "neutral_unproductive g \<and> no_neutral_troop g"
  using assms
proof (induction rule: reachable.induct)
  case (init factory_count link_count s g s')
  then show ?case using Game_init_inv by blast
next
  case (troop g own n src dst g')
  then have "own \<noteq> 0" by auto
  with troop show ?case using send_troop_inv by blast
next
  case (bomb g own src dst g')
  then show ?case using send_bomb_inv by blast
next
  case (turn g s s' g')
  then show ?case using update_inv by blast
qed

lemma ex_send_bomb:
  "send_bomb 1 0 2 ex_init =
     Returns (ex_init\<lparr>bombs := [\<lparr>bomb.owner = 1, source_factory = 0,
                                 destination_factory = 2, travel_time = 1\<rparr>]\<rparr>)"
  by (simp add: send_bomb_def index_def distance_or_20_def ex_init_def)

lemma ex_bomb_turn:
  "update (sconst 0, ex_init\<lparr>bombs := [\<lparr>bomb.owner = 1, source_factory = 0,
                                 destination_factory = 2, travel_time = 1\<rparr>]\<rparr>)
     = Returns (sconst 0, ex_neutral_bombed)"
  by (simp add: update_def update_troops_def update_bombs_def resolve_bomb_def index_def
      produce_def ex_init_def ex_neutral_bombed_def)

lemma ex_neutral_bombed_reachable: "reachable {1, 2} ex_neutral_bombed"
proof -
  have "reachable {1, 2} ex_init"
    using ex_Game_init by (rule reachable.init)
  then have "reachable {1, 2} (ex_init\<lparr>bombs := [\<lparr>bomb.owner = 1, source_factory = 0,
                                 destination_factory = 2, travel_time = 1\<rparr>]\<rparr>)"
    by (rule reachable.bomb [where own = 1 and src = 0 and dst = 2]) (simp_all add: ex_send_bomb)
  then show ?thesis
    by (rule reachable.turn [where s = "sconst 0" and s' = "sconst 0"]) (simp add: ex_bomb_turn)
qed

lemma ex_send_neutral:
  "send_troop 0 100 2 0 ex_init =
     Returns (ex_init\<lparr>troops := [\<lparr>troop.owner = 0, num_cyborgs = 100, source_factory = 2,
                                  destination_factory = 0, travel_time = 1\<rparr>],
        factories :=
          [\<lparr>factory.owner = 1, cyborgs = 15, production = 1, production_disabled = 0\<rparr>,
           \<lparr>factory.owner = 2, cyborgs = 15, production = 2, production_disabled = 0\<rparr>,
           \<lparr>factory.owner = 0, cyborgs = - 85, production = 0, production_disabled = 0\<rparr>]\<rparr>)"
  by (simp add: send_troop_def index_def distance_or_20_def ex_init_def)

lemma ex_neutral_turn:
  "update (sconst 3, ex_init\<lparr>troops := [\<lparr>troop.owner = 0, num_cyborgs = 100, source_factory = 2,
                                  destination_factory = 0, travel_time = 1\<rparr>],
        factories :=
          [\<lparr>factory.owner = 1, cyborgs = 15, production = 1, production_disabled = 0\<rparr>,
           \<lparr>factory.owner = 2, cyborgs = 15, production = 2, production_disabled = 0\<rparr>,
           \<lparr>factory.owner = 0, cyborgs = - 85, production = 0, production_disabled = 0\<rparr>]\<rparr>)
     = Returns (sconst 3, ex_neutral_conquest)"
proof -
  have "update_troops (sconst 3, ex_init\<lparr>troops := [\<lparr>troop.owner = 0, num_cyborgs = 100, source_factory = 2,
                                  destination_factory = 0, travel_time = 1\<rparr>],
        factories :=
          [\<lparr>factory.owner = 1, cyborgs = 15, production = 1, production_disabled = 0\<rparr>,
           \<lparr>factory.owner = 2, cyborgs = 15, production = 2, production_disabled = 0\<rparr>,
           \<lparr>factory.owner = 0, cyborgs = - 85, production = 0, production_disabled = 0\<rparr>]\<rparr>)
     = Returns (sconst 3, ex_init\<lparr>factories :=
          [\<lparr>factory.owner = 0, cyborgs = 85, production = 3, production_disabled = 0\<rparr>,
           \<lparr>factory.owner = 2, cyborgs = 15, production = 2, production_disabled = 0\<rparr>,
           \<lparr>factory.owner = 0, cyborgs = - 85, production = 0, production_disabled = 0\<rparr>]\<rparr>)"
    by (simp add: update_troops_def join_battle_def resolve_battle_def group_single fight_def
        battle_factory_single randint_def index_def ex_init_def)
  then show ?thesis
    by (simp add: update_def update_bombs_def produce_def ex_init_def ex_neutral_conquest_def)
qed

lemma ex_neutral_conquest_reachable: "reachable UNIV ex_neutral_conquest"
proof -
  have "reachable UNIV ex_init"
    using ex_Game_init by (rule reachable.init)
  then have "reachable UNIV (ex_init\<lparr>troops := [\<lparr>troop.owner = 0, num_cyborgs = 100, source_factory = 2,
                                  destination_factory = 0, travel_time = 1\<rparr>],
        factories :=
          [\<lparr>factory.owner = 1, cyborgs = 15, production = 1, production_disabled = 0\<rparr>,
           \<lparr>factory.owner = 2, cyborgs = 15, production = 2, production_disabled = 0\<rparr>,
           \<lparr>factory.owner = 0, cyborgs = - 85, production = 0, production_disabled = 0\<rparr>]\<rparr>)"
    by (rule reachable.troop [where own = 0 and n = 100 and src = 2 and dst = 0])
       (simp_all add: ex_send_neutral)
  then show ?thesis
    by (rule reachable.turn [where s = "sconst 3" and s' = "sconst 3"]) (simp add: ex_neutral_turn)
qed


text \<open>
  C2 as stated fails. After \<^verbatim>\<open>Game(3, 1)\<close>, \<^verbatim>\<open>send_bomb(1, 0, 2)\<close> and one
  turn, the neutral factory 2 has been bombed: its counter was set to 5 and the
  production loop has brought it to 4. And a troop sent in the name of owner 0 from the
  neutral factory 2 conquers factory 0, which is then neutral with the drawn
  production rate 3.
\<close>

theorem neutral_factory_disabled:
  "reachable {1, 2} ex_neutral_bombed \<and> \<not> neutral_idle ex_neutral_bombed
   \<and> reachable UNIV ex_neutral_conquest \<and> \<not> neutral_unproductive ex_neutral_conquest"
proof -
  have "\<not> neutral_idle ex_neutral_bombed"
    by (simp add: neutral_idle_def ex_neutral_bombed_def)
  moreover have "\<not> neutral_unproductive ex_neutral_conquest"
    by (simp add: neutral_unproductive_def ex_neutral_conquest_def)
  ultimately show ?thesis
    using ex_neutral_bombed_reachable ex_neutral_conquest_reachable by simp
qed


text \<open>
  C2 as amended. In every state reached from \<^verbatim>\<open>Game.__init__\<close> by commands that
  no caller requests as the neutral owner and by turns, every neutral factory has
  production 0. (Its production-disabled counter is set by a bomb like any other
  factory's.)
\<close>

theorem neutral_factories_unproductive:
  assumes "reachable callers g" and "0 \<notin> callers"
  shows "neutral_unproductive g"
  using reachable_inv [OF assms] by simp


theorem neutral_factories_unproductive_witness:
  "reachable {1, 2} ex_neutral_bombed \<and> 0 \<notin> {1, 2 :: int}
   \<and> neutral_unproductive ex_neutral_bombed"
proof -
  have c: "0 \<notin> {1, 2 :: int}" by simp
  show ?thesis
    using ex_neutral_bombed_reachable c
      neutral_factories_unproductive [OF ex_neutral_bombed_reachable c] by simp
qed


section \<open>The number of links\<close>

lemma sample2_distinct: "sample2 n s = Inr ((f1, f2), s1) \<Longrightarrow> f1 \<noteq> f2"
  by (auto simp: sample2_def Let_def split: if_splits)

lemma insert_both_orderings:
  "insert (f2, f1) (insert (f1, f2) (L \<union> L\<inverse>)) = insert (f1, f2) L \<union> (insert (f1, f2) L)\<inverse>"
  by auto

lemma links_inv_insert:
  assumes "links_inv links dist" and "(f1, f2) \<notin> links" and "(f2, f1) \<notin> links"
    and "f1 \<noteq> f2" and "1 \<le> v" and "v \<le> 20"
  shows "links_inv (insert (f1, f2) links) (dist((f1, f2) \<mapsto> v, (f2, f1) \<mapsto> v))"
proof -
  let ?d = "dist((f1, f2) \<mapsto> v, (f2, f1) \<mapsto> v)"
  have fin: "finite links" and dom: "dom dist = links \<union> links\<inverse>"
    and anti: "\<And>a b. (a, b) \<in> links \<Longrightarrow> (b, a) \<notin> links"
    and sym: "\<And>a b w. dist (a, b) = Some w \<Longrightarrow> 1 \<le> w \<and> w \<le> 20 \<and> dist (b, a) = Some w"
    using assms(1) unfolding links_inv_def by blast+
  have 1: "finite (insert (f1, f2) links)" using fin by simp
  have "dom ?d = insert (f2, f1) (insert (f1, f2) (dom dist))" by simp
  then have 2: "dom ?d = insert (f1, f2) links \<union> (insert (f1, f2) links)\<inverse>"
    unfolding dom by (simp only: insert_both_orderings)
  have 3: "\<forall>(a, b) \<in> insert (f1, f2) links. (b, a) \<notin> insert (f1, f2) links"
  proof (clarify)
    fix a b assume "(a, b) \<in> insert (f1, f2) links" "(b, a) \<in> insert (f1, f2) links"
    then show False using anti [of a b] assms(2-4) by auto
  qed
  have 4: "\<forall>a b w. ?d (a, b) = Some w \<longrightarrow> 1 \<le> w \<and> w \<le> 20 \<and> ?d (b, a) = Some w"
  proof (intro allI impI)
    fix a b w assume h: "?d (a, b) = Some w"
    consider "(a, b) = (f2, f1)" | "(a, b) = (f1, f2)"
      | "(a, b) \<noteq> (f2, f1)" "(a, b) \<noteq> (f1, f2)" by blast
    then show "1 \<le> w \<and> w \<le> 20 \<and> ?d (b, a) = Some w"
    proof cases
      case 1
      then show ?thesis using h assms(4-6) by simp
    next
      case 2
      then show ?thesis using h assms(4-6) by simp
    next
      case 3
      then have "dist (a, b) = Some w" using h by (auto split: if_splits)
      then have "1 \<le> w \<and> w \<le> 20 \<and> dist (b, a) = Some w" by (rule sym)
      moreover have "(b, a) \<noteq> (f2, f1)" "(b, a) \<noteq> (f1, f2)" using 3 by auto
      ultimately show ?thesis by (auto split: if_splits)
    qed
  qed
  show ?thesis unfolding links_inv_def using 1 2 3 4 by (intro conjI)
qed

lemma links_loop_inv:
  assumes "links_loop fc lc links dist s = Some y"
  shows "links_inv links dist \<longrightarrow>
           (\<forall>d s'. y = Inr (d, s') \<longrightarrow>
              (\<exists>links'. links_inv links' d
                 \<and> int (card links') = max (int (card links)) (2 * lc)))"
proof (rule links_loop.raw_induct
    [where P = "\<lambda>fc lc links dist s y. links_inv links dist \<longrightarrow>
           (\<forall>d s'. y = Inr (d, s') \<longrightarrow>
              (\<exists>links'. links_inv links' d
                 \<and> int (card links') = max (int (card links)) (2 * lc)))", OF _ assms])
  fix f :: "int \<Rightarrow> int \<Rightarrow> (int \<times> int) set \<Rightarrow> (int \<times> int \<rightharpoonup> int) \<Rightarrow> rng
     \<Rightarrow> (error + ((int \<times> int \<rightharpoonup> int) \<times> rng)) option"
  fix fc lc links dist s y
  assume IH: "\<And>lc links dist s b y. f lc links dist s b = Some y \<Longrightarrow>
     links_inv dist s \<longrightarrow>
           (\<forall>d s'. y = Inr (d, s') \<longrightarrow>
              (\<exists>links'. links_inv links' d
                 \<and> int (card links') = max (int (card dist)) (2 * links)))"
  assume body: "(if int (card links) < 2 * lc
      then case sample2 fc s of Inl e \<Rightarrow> Some (Inl e)
           | Inr ((f1, f2), s1) \<Rightarrow>
               if (f1, f2) \<notin> links \<and> (f2, f1) \<notin> links
               then case randint 1 20 s1 of
                    (distance, s2) \<Rightarrow>
                      f fc lc (insert (f1, f2) links)
                       (dist((f1, f2) \<mapsto> distance, (f2, f1) \<mapsto> distance)) s2
               else f fc lc links dist s1
      else Some (Inr (dist, s))) = Some y"
  show "links_inv links dist \<longrightarrow>
           (\<forall>d s'. y = Inr (d, s') \<longrightarrow>
              (\<exists>links'. links_inv links' d
                 \<and> int (card links') = max (int (card links)) (2 * lc)))"
  proof (intro impI allI)
    fix d s'
    assume inv: "links_inv links dist" and y: "y = Inr (d, s')"
    show "\<exists>links'. links_inv links' d \<and> int (card links') = max (int (card links)) (2 * lc)"
    proof (cases "int (card links) < 2 * lc")
      case False
      then have "d = dist" using body y by simp
      then show ?thesis using inv False by (intro exI [of _ links]) simp
    next
      case less: True
      show ?thesis
      proof (cases "sample2 fc s")
        case (Inl e)
        then show ?thesis using body y less by simp
      next
        case (Inr r)
        obtain f1 f2 s1 where r: "r = ((f1, f2), s1)" by (cases r) auto
        show ?thesis
        proof (cases "(f1, f2) \<notin> links \<and> (f2, f1) \<notin> links")
          case False
          then have "f fc lc links dist s1 = Some y"
            using body less Inr r by auto
          from IH [OF this] show ?thesis using inv y by simp
        next
          case new: True
          obtain v s2 where v: "randint 1 20 s1 = (v, s2)" by (cases "randint 1 20 s1")
          then have rec: "f fc lc (insert (f1, f2) links)
                       (dist((f1, f2) \<mapsto> v, (f2, f1) \<mapsto> v)) s2 = Some y"
            using body less Inr r new by simp
          have "1 \<le> v \<and> v \<le> 20" using randint_range [of 1 20 s1] v by simp
          then have inv': "links_inv (insert (f1, f2) links) (dist((f1, f2) \<mapsto> v, (f2, f1) \<mapsto> v))"
            using links_inv_insert [OF inv] new sample2_distinct Inr r by blast
          have "finite links" using inv by (simp add: links_inv_def)
          then have "int (card (insert (f1, f2) links)) = int (card links) + 1"
            using new by simp
          then have "max (int (card (insert (f1, f2) links))) (2 * lc) = max (int (card links)) (2 * lc)"
            using less by simp
          then show ?thesis using IH [OF rec] inv' y by simp
        qed
      qed
    qed
  qed
qed


lemma card_link_pairs:
  assumes "links_inv links d"
  shows "card (link_pairs d) = card links"
proof -
  have dom: "dom d = links \<union> links\<inverse>"
    and anti: "\<And>a b. (a, b) \<in> links \<Longrightarrow> (b, a) \<notin> links"
    using assms unfolding links_inv_def by blast+
  have "(\<lambda>(a, b). {a, b}) ` (links\<inverse>) = (\<lambda>(a, b). {a, b}) ` links"
    by (auto simp: image_iff insert_commute)
  then have "link_pairs d = (\<lambda>(a, b). {a, b}) ` links"
    by (simp add: link_pairs_def dom image_Un)
  moreover have "inj_on (\<lambda>(a, b). {a, b}) links"
  proof (rule inj_onI, clarify)
    fix a b c e assume "(a, b) \<in> links" "(c, e) \<in> links" "{a, b} = {c, e}"
    then show "a = c \<and> b = e" using anti [of a b] by (auto simp: doubleton_eq_iff)
  qed
  ultimately show ?thesis by (simp add: card_image)
qed

lemma sample2_two:
  "sample2 2 s = Inr ((f1, f2), s1) \<Longrightarrow> (f1, f2) = (0, 1) \<or> (f1, f2) = (1, 0)"
  by (auto simp: sample2_def Let_def split: if_splits)

lemma links_loop_stuck:
  assumes "links_loop fc lc links dist s = Some y"
  shows "\<not> (fc = 2 \<and> lc = 1 \<and> (links = {(0, 1)} \<or> links = {(1, 0)}))"
proof (rule links_loop.raw_induct
    [where P = "\<lambda>fc lc links dist s y.
        \<not> (fc = 2 \<and> lc = 1 \<and> (links = {(0, 1)} \<or> links = {(1, 0)}))", OF _ assms])
  fix f :: "int \<Rightarrow> int \<Rightarrow> (int \<times> int) set \<Rightarrow> (int \<times> int \<rightharpoonup> int) \<Rightarrow> rng
     \<Rightarrow> (error + ((int \<times> int \<rightharpoonup> int) \<times> rng)) option"
  fix fc lc links dist s y
  assume IH: "\<And>lc links dist s b y. f lc links dist s b = Some y \<Longrightarrow>
     \<not> (lc = 2 \<and> links = 1 \<and> (dist = {(0, 1)} \<or> dist = {(1, 0)}))"
  assume body: "(if int (card links) < 2 * lc
      then case sample2 fc s of Inl e \<Rightarrow> Some (Inl e)
           | Inr ((f1, f2), s1) \<Rightarrow>
               if (f1, f2) \<notin> links \<and> (f2, f1) \<notin> links
               then case randint 1 20 s1 of
                    (distance, s2) \<Rightarrow>
                      f fc lc (insert (f1, f2) links)
                       (dist((f1, f2) \<mapsto> distance, (f2, f1) \<mapsto> distance)) s2
               else f fc lc links dist s1
      else Some (Inr (dist, s))) = Some y"
  show "\<not> (fc = 2 \<and> lc = 1 \<and> (links = {(0, 1)} \<or> links = {(1, 0)}))"
  proof
    assume a: "fc = 2 \<and> lc = 1 \<and> (links = {(0, 1)} \<or> links = {(1, 0)})"
    then have c: "int (card links) < 2 * lc" by auto
    obtain f1 f2 s1 where sm: "sample2 fc s = Inr ((f1, f2), s1)"
      using a by (auto simp: sample2_def Let_def)
    then have "(f1, f2) = (0, 1) \<or> (f1, f2) = (1, 0)" using a sample2_two by blast
    then have "\<not> ((f1, f2) \<notin> links \<and> (f2, f1) \<notin> links)" using a by auto
    then have "(if (f1, f2) \<notin> links \<and> (f2, f1) \<notin> links
               then case randint 1 20 s1 of
                    (distance, s2) \<Rightarrow>
                      f fc lc (insert (f1, f2) links)
                       (dist((f1, f2) \<mapsto> distance, (f2, f1) \<mapsto> distance)) s2
               else f fc lc links dist s1) = f fc lc links dist s1"
      by (simp only: if_False)
    moreover have "(if (f1, f2) \<notin> links \<and> (f2, f1) \<notin> links
               then case randint 1 20 s1 of
                    (distance, s2) \<Rightarrow>
                      f fc lc (insert (f1, f2) links)
                       (dist((f1, f2) \<mapsto> distance, (f2, f1) \<mapsto> distance)) s2
               else f fc lc links dist s1) = Some y"
      using body c sm by simp
    ultimately have "f fc lc links dist s1 = Some y" by simp
    from IH [OF this] show False using a by simp
  qed
qed

lemma two_factories_one_link_diverges: "initialize_distances 2 1 Map.empty s = None"
proof (rule ccontr)
  assume "initialize_distances 2 1 Map.empty s \<noteq> None"
  then obtain y where y: "links_loop 2 1 {} Map.empty s = Some y"
    by (auto simp: initialize_distances_def)
  obtain f1 f2 s1 where sm: "sample2 2 s = Inr ((f1, f2), s1)"
    by (simp add: sample2_def Let_def)
  then have p: "(f1, f2) = (0, 1) \<or> (f1, f2) = (1, 0)" by (rule sample2_two)
  obtain v s2 where v: "randint 1 20 s1 = (v, s2)" by (cases "randint 1 20 s1")
  have "links_loop 2 1 {} Map.empty s
          = links_loop 2 1 {(f1, f2)} (Map.empty((f1, f2) \<mapsto> v, (f2, f1) \<mapsto> v)) s2"
    by (subst links_loop.simps) (simp add: sm v)
  then have "links_loop 2 1 {(f1, f2)} (Map.empty((f1, f2) \<mapsto> v, (f2, f1) \<mapsto> v)) s2 = Some y"
    using y by simp
  from links_loop_stuck [OF this] show False using p by auto
qed


text \<open>
  C7, as the code has it. Whenever \<^verbatim>\<open>initialize_distances\<close> returns, the number of
  unordered pairs of factories with a stored distance is twice the link count (0 for
  a negative count), not the link count: the loop runs until \<open>links\<close> has
  \<open>2 * link_count\<close> elements, and \<open>links\<close> holds one ordering of each pair. Every stored
  distance lies in \<open>[1, 20]\<close> and is stored under both orderings.
\<close>

theorem initialize_distances_links:
  assumes "initialize_distances fc lc Map.empty s = Some (Inr (d, s'))"
  shows "int (card (link_pairs d)) = max 0 (2 * lc)
         \<and> (\<forall>a b v. d (a, b) = Some v \<longrightarrow> 1 \<le> v \<and> v \<le> 20 \<and> d (b, a) = Some v)"
proof -
  have e: "links_inv {} Map.empty" by (simp add: links_inv_def)
  have "links_loop fc lc {} Map.empty s = Some (Inr (d, s'))"
    using assms by (simp add: initialize_distances_def)
  note li = links_loop_inv [OF this, THEN mp, OF e, THEN spec, THEN spec, THEN mp, OF refl]
  then obtain links' where l1: "links_inv links' d"
    and l2: "int (card links') = max (int (card ({} :: (int \<times> int) set))) (2 * lc)"
    by (elim exE conjE)
  note l = l1 l2 [simplified]
  from l1 have "finite links' \<and> dom d = links' \<union> links'\<inverse>
     \<and> (\<forall>(a, b) \<in> links'. (b, a) \<notin> links')
     \<and> (\<forall>a b v. d (a, b) = Some v \<longrightarrow> 1 \<le> v \<and> v \<le> 20 \<and> d (b, a) = Some v)"
    unfolding links_inv_def .
  then have sym: "\<forall>a b v. d (a, b) = Some v \<longrightarrow> 1 \<le> v \<and> v \<le> 20 \<and> d (b, a) = Some v"
    by (elim conjE)
  have c: "int (card (link_pairs d)) = max 0 (2 * lc)"
    using card_link_pairs [OF l1] l(2) by simp
  from c sym show ?thesis by (rule conjI)
qed

text \<open>
  \<^verbatim>\<open>Game(3, 1)\<close>: for a link count of 1 the game starts with the two linked pairs
  \<open>{0, 2}\<close> and \<open>{1, 2}\<close>.
\<close>

theorem initialize_distances_links_witness:
  "initialize_distances 3 1 Map.empty ([0, 1, 0, 1, 1, 0] @- sconst 0)
     = Some (Inr (distances ex_init, sconst 0))
   \<and> link_pairs (distances ex_init) = {{0, 2}, {1, 2}}
   \<and> int (card (link_pairs (distances ex_init))) = 2"
proof -
  have "link_pairs (distances ex_init) = {{0, 2}, {1, 2}}"
    by (auto simp: link_pairs_def ex_init_def)
  moreover have "int (card (link_pairs (distances ex_init))) = 2"
    using initialize_distances_links [OF ex_links, THEN conjunct1] by simp
  ultimately show ?thesis using ex_links by (intro conjI)
qed

end
